theory Spec2Isabelle
  imports Main "HOL-Library.Word" "HOL-Library.Sublist"
begin

unbundle bit_operations_syntax

section \<open>The machine: memory, serial line, call trace\<close>

text \<open>
  The bootloader runs on a 32-bit little-endian RISC-V core. Addresses and the C types
  \<open>uint32_t\<close> and \<open>size_t\<close> are 32-bit words, bytes are 8-bit words, the C type
  \<open>char\<close> is the 8-bit HOL type \<open>char\<close>. Memory maps every address to a byte.
\<close>

type_synonym addr = "32 word"
type_synonym byte = "8 word"
type_synonym memory = "addr \<Rightarrow> byte"

text \<open>
  The calls and stores the properties talk about, in the order they happen. The trace is
  a ghost field: no function of the model reads it.
\<close>

datatype event =
    PlatformErase addr nat   \<comment> \<open>\<open>platform_flash_erase(addr, size)\<close>\<close>
  | PlatformWrite addr nat   \<comment> \<open>\<open>platform_flash_write(addr, data, size)\<close>\<close>
  | DirectStore addr         \<comment> \<open>\<open>dest[j] = ...\<close> in \<open>uart_update\<close>\<close>
  | CrcCall addr nat         \<comment> \<open>\<open>crc32(ptr, len)\<close>\<close>
  | Validated int            \<comment> \<open>\<open>validate_app()\<close> returned this value\<close>
  | AppEntry                 \<comment> \<open>\<open>app_entry()\<close>: the handoff\<close>
  | PlatformReset            \<comment> \<open>\<open>platform_reset()\<close>\<close>

record machine =
  mem :: memory
  rx :: string           \<comment> \<open>bytes the host has sent and the loader has not read yet\<close>
  tx :: string           \<comment> \<open>bytes the loader has sent, oldest first\<close>
  trace :: "event list"  \<comment> \<open>oldest first\<close>

text \<open>
  A C function either returns to its caller or never does: it blocks for ever in
  \<open>platform_uart_getc\<close> once the host sends nothing more (\<open>Stalled\<close>), it resets the
  machine (\<open>Rebooted\<close>), or it has given the processor to the application (\<open>Jumped\<close>).
\<close>

datatype ending = Stalled | Rebooted | Jumped

datatype 'a result = Return 'a machine | Halt ending machine

definition log :: "event \<Rightarrow> machine \<Rightarrow> machine" where
  "log e s = s\<lparr>trace := trace s @ [e]\<rparr>"

subsection \<open>The two revisions of main.c\<close>

text \<open>
  The repository holds \<open>src/main.c\<close> and a later revision of it (\<open>unnamed/part_005\<close>).
  The later one ends its string literals with \<open>\n\<close> instead of \<open>\n\r\<close>, prints one line
  more before the handoff and one newline more after the echo, and compiles the end of
  \<open>uart_update\<close> under \<open>#if PLATFORM_DIRECT_BOOT_AFTER_UPDATE\<close>; the flag is the
  argument of \<open>Part_005\<close> (\<open>platform.h\<close> exists with the flag set to 1 and without it).
\<close>

datatype build = Main_c | Part_005 bool

abbreviation LF :: char where "LF \<equiv> CHR 0x0A"
abbreviation CR :: char where "CR \<equiv> CHR 0x0D"

fun eol :: "build \<Rightarrow> string" where
  "eol Main_c = [LF, CR]"
| "eol (Part_005 _) = [LF]"

fun direct_boot :: "build \<Rightarrow> bool" where
  "direct_boot Main_c = False"
| "direct_boot (Part_005 flag) = flag"

subsection \<open>platform.h and boot.h\<close>

definition APP_BASE :: addr where "APP_BASE = 0x80010000"
definition APP_MAX_SIZE :: "32 word" where "APP_MAX_SIZE = 448 * 1024"
definition BOOT_MAGIC :: "32 word" where "BOOT_MAGIC = 0x5256424C"
definition PLATFORM_NAME :: string where "PLATFORM_NAME = ''QEMU Virt (RV32IM)''"

record fw_header =
  hdr_magic :: "32 word"
  hdr_size :: "32 word"
  hdr_crc32 :: "32 word"
  hdr_version :: "32 word"

text \<open>\<open>sizeof(fw_header_t)\<close>: four \<open>uint32_t\<close>.\<close>

definition sizeof_fw_header :: "32 word" where "sizeof_fw_header = 16"

text \<open>A \<open>uint32_t\<close> in memory, least significant byte first.\<close>

definition le32 :: "32 word \<Rightarrow> byte list" where
  "le32 w = [ucast w, ucast (drop_bit 8 w), ucast (drop_bit 16 w), ucast (drop_bit 24 w)]"

definition load32 :: "memory \<Rightarrow> addr \<Rightarrow> 32 word" where
  "load32 m a =
     ucast (m a) OR push_bit 8 (ucast (m (a + 1))) OR
     push_bit 16 (ucast (m (a + 2))) OR push_bit 24 (ucast (m (a + 3)))"

definition header_bytes :: "fw_header \<Rightarrow> byte list" where
  "header_bytes h = le32 (hdr_magic h) @ le32 (hdr_size h) @ le32 (hdr_crc32 h) @ le32 (hdr_version h)"

text \<open>\<open>(const fw_header_t *)APP_BASE\<close>, dereferenced.\<close>

definition header_at :: "memory \<Rightarrow> addr \<Rightarrow> fw_header" where
  "header_at m a =
     \<lparr>hdr_magic = load32 m a, hdr_size = load32 m (a + 4),
      hdr_crc32 = load32 m (a + 8), hdr_version = load32 m (a + 12)\<rparr>"

text \<open>The \<open>n\<close> bytes a \<open>const uint8_t *\<close> points to.\<close>

definition read_bytes :: "memory \<Rightarrow> addr \<Rightarrow> nat \<Rightarrow> byte list" where
  "read_bytes m a n = map (\<lambda>i. m (a + of_nat i)) [0..<n]"

subsection \<open>crc32\<close>

text \<open>
  Modelled from the spec: \<open>src/crc32.c\<close> (the function \<open>crc32\<close> declared in boot.h and
  listed in the Makefile) is not among the sources. The spec (4.1) says: the standard
  CRC-32 polynomial and initialisation of zlib-compatible implementations, table- or
  bit-driven. This is the bit-driven one: reflected polynomial \<open>0xEDB88320\<close>, initial
  value and final complement \<open>0xFFFFFFFF\<close>.
\<close>

definition crc_bit :: "32 word \<Rightarrow> 32 word" where
  "crc_bit c = (if bit c 0 then drop_bit 1 c XOR 0xEDB88320 else drop_bit 1 c)"

definition crc_byte :: "32 word \<Rightarrow> byte \<Rightarrow> 32 word" where
  "crc_byte c b = (crc_bit ^^ 8) (c XOR ucast b)"

definition crc32 :: "byte list \<Rightarrow> 32 word" where
  "crc32 data = foldl crc_byte 0xFFFFFFFF data XOR 0xFFFFFFFF"

text \<open>The call \<open>crc32(ptr, len)\<close> on the machine.\<close>

definition crc32_at :: "addr \<Rightarrow> 32 word \<Rightarrow> machine \<Rightarrow> 32 word \<times> machine" where
  "crc32_at p len s = (crc32 (read_bytes (mem s) p (unat len)), log (CrcCall p (unat len)) s)"

subsection \<open>boards/qemu_virt/platform.c\<close>

text \<open>
  The UART registers are hardware: a byte written to the transmit register is a byte of
  \<open>tx\<close>, a byte read from the receive register is the next byte of \<open>rx\<close>, and the wait
  for a byte that never comes does not end.
\<close>

definition platform_uart_putc :: "char \<Rightarrow> machine \<Rightarrow> machine" where
  "platform_uart_putc c s = s\<lparr>tx := tx s @ [c]\<rparr>"

definition platform_uart_getc :: "machine \<Rightarrow> char result" where
  "platform_uart_getc s =
     (case rx s of [] \<Rightarrow> Halt Stalled s | c # cs \<Rightarrow> Return c (s\<lparr>rx := cs\<rparr>))"

text \<open>\<open>for (i = 0; i < size; i++) dest[i] = src[i];\<close>\<close>

fun copy_bytes :: "addr \<Rightarrow> byte list \<Rightarrow> memory \<Rightarrow> memory" where
  "copy_bytes dest [] m = m"
| "copy_bytes dest (x # xs) m = copy_bytes (dest + 1) xs (m(dest := x))"

text \<open>\<open>for (i = 0; i < size; i++) dest[i] = 0xFF;\<close>\<close>

fun fill_ff :: "addr \<Rightarrow> nat \<Rightarrow> memory \<Rightarrow> memory" where
  "fill_ff dest 0 m = m"
| "fill_ff dest (Suc n) m = fill_ff (dest + 1) n (m(dest := 0xFF))"

text \<open>
  The source buffer and its length are one list here: \<open>data\<close> holds the \<open>size\<close> bytes
  at \<open>src\<close>.
\<close>

definition platform_flash_write :: "addr \<Rightarrow> byte list \<Rightarrow> machine \<Rightarrow> int \<times> machine" where
  "platform_flash_write a data s =
     (0, log (PlatformWrite a (length data)) (s\<lparr>mem := copy_bytes a data (mem s)\<rparr>))"

definition platform_flash_erase :: "addr \<Rightarrow> 32 word \<Rightarrow> machine \<Rightarrow> int \<times> machine" where
  "platform_flash_erase a n s =
     (0, log (PlatformErase a (unat n)) (s\<lparr>mem := fill_ff a (unat n) (mem s)\<rparr>))"

definition platform_reset :: "machine \<Rightarrow> 'a result" where
  "platform_reset s = Halt Rebooted (log PlatformReset s)"

subsection \<open>src/uart.c\<close>

text \<open>\<open>platform_early_init\<close> is empty and \<open>platform_uart_init\<close> sets UART registers only.\<close>

definition uart_init :: "machine \<Rightarrow> machine" where
  "uart_init s = s"

definition uart_putc :: "char \<Rightarrow> machine \<Rightarrow> machine" where
  "uart_putc c s = platform_uart_putc c (if c = LF then platform_uart_putc CR s else s)"

definition uart_getc :: "machine \<Rightarrow> char result" where
  "uart_getc s = platform_uart_getc s"

definition uart_puts :: "string \<Rightarrow> machine \<Rightarrow> machine" where
  "uart_puts str s = fold uart_putc str s"

subsection \<open>src/flash.c\<close>

text \<open>
  \<open>addr + size\<close> is a sum of two unsigned 32-bit values: it wraps. \<open>size\<close> is the
  length of \<open>data\<close> as a \<open>size_t\<close>.
\<close>

definition flash_write :: "addr \<Rightarrow> byte list \<Rightarrow> machine \<Rightarrow> int \<times> machine" where
  "flash_write a data s =
     (if a < APP_BASE \<or> a + of_nat (length data) > APP_BASE + APP_MAX_SIZE then (- 1, s)
      else platform_flash_write a data s)"

definition flash_erase_app :: "machine \<Rightarrow> int \<times> machine" where
  "flash_erase_app s = platform_flash_erase APP_BASE APP_MAX_SIZE s"

definition flash_write_header :: "fw_header \<Rightarrow> machine \<Rightarrow> int \<times> machine" where
  "flash_write_header header s = platform_flash_write APP_BASE (header_bytes header) s"

subsection \<open>src/main.c\<close>

definition print_banner :: "build \<Rightarrow> machine \<Rightarrow> machine" where
  "print_banner b s =
     (let s1 = uart_puts ((case b of Main_c \<Rightarrow> [LF, CR] | Part_005 _ \<Rightarrow> []) @
                 ''======================================'' @ eol b) s;
          s2 = uart_puts (''   Professional RISC-V Bootloader    '' @ eol b) s1;
          s3 = uart_puts (''   Target: '' @ PLATFORM_NAME @ ''        '' @ eol b) s2
      in uart_puts (''======================================'' @ eol b) s3)"

text \<open>
  \<open>validate_app\<close> returns 0 or -1; which check failed shows only in the line it prints.
\<close>

definition validate_app :: "build \<Rightarrow> machine \<Rightarrow> int \<times> machine" where
  "validate_app b s =
     (let header = header_at (mem s) APP_BASE in
      if hdr_magic header \<noteq> BOOT_MAGIC then
        (- 1, log (Validated (- 1)) (uart_puts (''Error: Invalid magic number'' @ eol b) s))
      else if hdr_size header = 0 \<or> hdr_size header > APP_MAX_SIZE - sizeof_fw_header then
        (- 1, log (Validated (- 1)) (uart_puts (''Error: Invalid firmware size'' @ eol b) s))
      else
        (case crc32_at (APP_BASE + sizeof_fw_header) (hdr_size header) s of
           (calc_crc, s1) \<Rightarrow>
             if calc_crc \<noteq> hdr_crc32 header then
               (- 1, log (Validated (- 1)) (uart_puts (''Error: CRC mismatch'' @ eol b) s1))
             else (0, log (Validated 0) s1)))"

text \<open>What the application does once it runs is not part of the loader.\<close>

definition jump_to_app :: "build \<Rightarrow> machine \<Rightarrow> 'a result" where
  "jump_to_app b s =
     (let s1 = uart_puts (''Jumping to application...'' @ eol b) s;
          s2 = (case b of Main_c \<Rightarrow> s1 | Part_005 _ \<Rightarrow> uart_puts (''APP_HANDOFF'' @ eol b) s1)
      in Halt Jumped (log AppEntry s2))"

text \<open>
  \<open>for (j = 0; j < 5; j++) if (uart_getc() != cmd[j]) { uart_puts("ERR: CMD"); return; }\<close>:
  the result is \<open>True\<close> when all of \<open>cmd\<close> was matched, \<open>False\<close> after \<open>ERR: CMD\<close>.
\<close>

fun await_command :: "build \<Rightarrow> string \<Rightarrow> machine \<Rightarrow> bool result" where
  "await_command b [] s = Return True s"
| "await_command b (k # cmd) s =
     (case uart_getc s of
        Halt e s' \<Rightarrow> Halt e s'
      | Return c s' \<Rightarrow>
          if c \<noteq> k then Return False (uart_puts (''ERR: CMD'' @ eol b) s')
          else await_command b cmd s')"

lemma uart_getc_rx:
  "uart_getc s = Return c s' \<Longrightarrow> rx s = c # rx s'"
  by (auto simp: uart_getc_def platform_uart_getc_def split: list.splits)

text \<open>The \<open>while (1)\<close> that reads the size: \<open>size = size * 10 + (c - '0')\<close> wraps.\<close>

definition is_digit :: "char \<Rightarrow> bool" where
  "is_digit c = ((of_char (CHR ''0'') :: nat) \<le> of_char c \<and> (of_char c :: nat) \<le> of_char (CHR ''9''))"

function read_size :: "32 word \<Rightarrow> machine \<Rightarrow> (32 word) result" where
  "read_size sz s =
     (case uart_getc s of
        Halt e s' \<Rightarrow> Halt e s'
      | Return c s' \<Rightarrow>
          if c = CR \<or> c = LF then Return sz s'
          else if is_digit c then
            read_size (sz * 10 + of_nat (of_char c - of_char (CHR ''0''))) s'
          else read_size sz s')"
  by pat_completeness auto
termination
  by (relation "measure (\<lambda>(sz, s). length (rx s))") (auto dest: uart_getc_rx)

text \<open>\<open>for (uint32_t j = 0; j < size; j++) dest[j] = (uint8_t)uart_getc();\<close>\<close>

function receive :: "addr \<Rightarrow> 32 word \<Rightarrow> 32 word \<Rightarrow> machine \<Rightarrow> unit result" where
  "receive dest j sz s =
     (if j < sz then
        (case uart_getc s of
           Halt e s' \<Rightarrow> Halt e s'
         | Return c s' \<Rightarrow>
             receive dest (j + 1) sz
               (log (DirectStore (dest + j)) (s'\<lparr>mem := (mem s')(dest + j := of_char c)\<rparr>)))
      else Return () s)"
  by pat_completeness auto
termination
  by (relation "measure (\<lambda>(dest, j, sz, s). unat sz - unat j)") (simp, unat_arith)

text \<open>
  \<open>header.crc32\<close> is not set when the header is prepared; the record is built where the
  last field gets its value.
\<close>

definition uart_update :: "build \<Rightarrow> machine \<Rightarrow> unit result" where
  "uart_update b s0 =
     (let s1 = uart_puts (''OK'' @ eol b) s0 in
      case await_command b ''SEND '' s1 of
        Halt e s' \<Rightarrow> Halt e s'
      | Return False s2 \<Rightarrow> Return () s2
      | Return True s2 \<Rightarrow>
         (case read_size 0 s2 of
            Halt e s' \<Rightarrow> Halt e s'
          | Return sz s3 \<Rightarrow>
              if sz = 0 \<or> sz > APP_MAX_SIZE - sizeof_fw_header then
                Return () (uart_puts (''ERR: SIZE'' @ eol b) s3)
              else
                (case flash_erase_app (uart_puts (''ERASING...'' @ eol b) s3) of
                   (rc, s4) \<Rightarrow>
                     if rc \<noteq> 0 then Return () (uart_puts (''ERR: ERASE'' @ eol b) s4)
                     else
                       (case receive (APP_BASE + sizeof_fw_header) 0 sz
                               (uart_puts (''READY'' @ eol b) s4) of
                          Halt e s' \<Rightarrow> Halt e s'
                        | Return _ s5 \<Rightarrow>
                           (case crc32_at (APP_BASE + sizeof_fw_header) sz s5 of
                              (crc, s6) \<Rightarrow>
                               (case flash_write_header
                                       \<lparr>hdr_magic = BOOT_MAGIC, hdr_size = sz,
                                        hdr_crc32 = crc, hdr_version = 1\<rparr> s6 of
                                  (rc, s7) \<Rightarrow>
                                    if rc \<noteq> 0 then
                                      Return () (uart_puts (''ERR: HEADER'' @ eol b) s7)
                                    else
                                      (let s8 = uart_puts (''CRC?'' @ eol b) s7;
                                           s9 = uart_puts (''OK'' @ eol b) s8;
                                           s10 = uart_puts (''REBOOT'' @ eol b) s9
                                       in if direct_boot b then jump_to_app b s10
                                          else platform_reset s10)))))))"

text \<open>
  The two \<open>while (1)\<close> loops of \<open>main\<close> read at least one byte in each round, and
  \<open>uart_update\<close> gives back no byte it has read: the loops end when the input does.
\<close>

lemma rx_log: "rx (log e s) = rx s" by (simp add: log_def)
lemma rx_uart_puts: "rx (uart_puts str s) = rx s"
  unfolding uart_puts_def
  by (induction str arbitrary: s) (simp_all add: uart_putc_def platform_uart_putc_def)

lemma await_command_rx:
  "await_command b cmd s = Return r s' \<Longrightarrow> length (rx s') \<le> length (rx s)"
proof (induction cmd arbitrary: s)
  case Nil
  then show ?case by simp
next
  case (Cons k cmd)
  show ?case
  proof (cases "uart_getc s")
    case (Return c s1)
    have le: "length (rx s1) \<le> length (rx s)"
      using uart_getc_rx[OF Return] by simp
    show ?thesis
    proof (cases "c = k")
      case True
      with Cons.prems Return have "await_command b cmd s1 = Return r s'" by simp
      from Cons.IH[OF this] le show ?thesis by simp
    next
      case False
      with Cons.prems Return have "s' = uart_puts (''ERR: CMD'' @ eol b) s1" by simp
      with le show ?thesis by (simp add: rx_uart_puts)
    qed
  next
    case (Halt e s1)
    with Cons.prems show ?thesis by simp
  qed
qed

lemma read_size_rx:
  "read_size sz s = Return r s' \<Longrightarrow> length (rx s') \<le> length (rx s)"
proof (induction sz s rule: read_size.induct)
  case (1 sz s)
  show ?case
  proof (cases "uart_getc s")
    case (Return c s1)
    with "1.prems" "1.IH"[OF Return] show ?thesis
      by (subst (asm) read_size.simps) (auto split: if_splits dest!: uart_getc_rx)
  next
    case (Halt e s1)
    with "1.prems" show ?thesis
      by (subst (asm) read_size.simps) simp
  qed
qed

lemma uart_update_rx:
  assumes "uart_update b s = Return r s'"
  shows "length (rx s') \<le> length (rx s)"
proof (cases "await_command b ''SEND '' (uart_puts (''OK'' @ eol b) s)")
  case (Halt e s2)
  with assms show ?thesis by (simp add: uart_update_def del: await_command.simps)
next
  case (Return ok s2)
  have le2: "length (rx s2) \<le> length (rx s)"
    using await_command_rx[OF Return] by (simp add: rx_uart_puts)
  show ?thesis
  proof (cases ok)
    case False
    with assms Return have "s' = s2" by (simp add: uart_update_def del: await_command.simps)
    with le2 show ?thesis by simp
  next
    case True
    show ?thesis
    proof (cases "read_size 0 s2")
      case (Halt e s3)
      with assms Return True show ?thesis by (simp add: uart_update_def del: await_command.simps)
    next
      case sz: (Return sz s3)
      have le3: "length (rx s3) \<le> length (rx s)"
        using read_size_rx[OF sz] le2 by simp
      show ?thesis
      proof (cases "sz = 0 \<or> sz > APP_MAX_SIZE - sizeof_fw_header")
        case bad: True
        with assms Return True sz have "s' = uart_puts (''ERR: SIZE'' @ eol b) s3"
          by (simp add: uart_update_def del: await_command.simps)
        with le3 show ?thesis by (simp add: rx_uart_puts)
      next
        case good: False
        define s4 where "s4 = uart_puts (''READY'' @ eol b)
            (snd (flash_erase_app (uart_puts (''ERASING...'' @ eol b) s3)))"
        have rx4: "rx s4 = rx s3"
          by (simp add: s4_def rx_uart_puts rx_log flash_erase_app_def platform_flash_erase_def)
        show ?thesis
        proof (cases "receive (APP_BASE + sizeof_fw_header) 0 sz s4")
          case (Halt e s5)
          with assms Return True sz good show ?thesis
            by (simp add: uart_update_def s4_def flash_erase_app_def platform_flash_erase_def
                  del: await_command.simps)
        next
          case rcv: (Return u s5)
          with assms Return True sz good show ?thesis
            by (simp add: uart_update_def s4_def flash_erase_app_def platform_flash_erase_def
                  flash_write_header_def platform_flash_write_def crc32_at_def Let_def
                  jump_to_app_def platform_reset_def
                  del: await_command.simps split: if_splits)
        qed
      qed
    qed
  qed
qed

text \<open>The first loop of \<open>main\<close>: the boot decision, with the echo.\<close>

function offer_update :: "build \<Rightarrow> machine \<Rightarrow> unit result" where
  "offer_update b s =
     (case uart_getc s of
        Halt e s' \<Rightarrow> Halt e s'
      | Return choice s1 \<Rightarrow>
          (let s2 = uart_putc choice s1;
               s3 = (case b of
                       Main_c \<Rightarrow> s2
                     | Part_005 _ \<Rightarrow>
                         if choice \<noteq> CR \<and> choice \<noteq> LF then uart_puts [LF] s2 else s2)
           in if choice = CHR ''u'' \<or> choice = CHR ''U'' then
                (case uart_update b s3 of
                   Halt e s' \<Rightarrow> Halt e s'
                 | Return _ s4 \<Rightarrow> offer_update b s4)
              else Return () s3))"
  by pat_completeness auto
termination
proof (relation "measure (\<lambda>(b, s). length (rx s))")
  show "wf (measure (\<lambda>(b, s). length (rx s)))" by simp
next
  fix b s choice s1 s2 s3 u s4
  assume g: "uart_getc s = Return choice s1"
    and s2: "s2 = uart_putc choice s1"
    and s3: "s3 = (case b of Main_c \<Rightarrow> s2
                   | Part_005 _ \<Rightarrow>
                       if choice \<noteq> CR \<and> choice \<noteq> LF then uart_puts [LF] s2 else s2)"
    and upd: "uart_update b s3 = Return u s4"
  have "rx s3 = rx s1"
    by (simp add: s3 s2 rx_uart_puts uart_putc_def platform_uart_putc_def split: build.split)
  with uart_update_rx[OF upd] uart_getc_rx[OF g]
  show "((b, s4), (b, s)) \<in> measure (\<lambda>(b, s). length (rx s))" by simp
qed

text \<open>The recovery loop: the second \<open>while (1)\<close> of \<open>main\<close>. It has no exit.\<close>

function recovery_loop :: "build \<Rightarrow> machine \<Rightarrow> unit result" where
  "recovery_loop b s =
     (case uart_getc s of
        Halt e s' \<Rightarrow> Halt e s'
      | Return c s1 \<Rightarrow>
          if c = CHR ''u'' then
            (case uart_update b s1 of
               Halt e s' \<Rightarrow> Halt e s'
             | Return _ s2 \<Rightarrow> recovery_loop b s2)
          else recovery_loop b s1)"
  by pat_completeness auto
termination
proof (relation "measure (\<lambda>(b, s). length (rx s))")
  show "wf (measure (\<lambda>(b, s). length (rx s)))" by simp
next
  fix b s c s1 u s2
  assume g: "uart_getc s = Return c s1" and upd: "uart_update b s1 = Return u s2"
  from uart_update_rx[OF upd] uart_getc_rx[OF g]
  show "((b, s2), (b, s)) \<in> measure (\<lambda>(b, s). length (rx s))" by simp
next
  fix b s c s1
  assume g: "uart_getc s = Return c s1"
  from uart_getc_rx[OF g]
  show "((b, s1), (b, s)) \<in> measure (\<lambda>(b, s). length (rx s))" by simp
qed

definition main :: "build \<Rightarrow> machine \<Rightarrow> unit result" where
  "main b s =
     (let s1 = uart_puts (''BOOT?'' @ eol b) (print_banner b (uart_init s)) in
      case offer_update b s1 of
        Halt e s' \<Rightarrow> Halt e s'
      | Return _ s2 \<Rightarrow>
         (case validate_app b s2 of
            (rc, s3) \<Rightarrow>
              if rc = 0 then jump_to_app b s3
              else recovery_loop b
                     (uart_puts (''Recovery Loop: No valid app found. Press 'u' to update.'' @ eol b)
                        s3)))"

declare read_size.simps [simp del] receive.simps [simp del]
declare offer_update.simps [simp del] recovery_loop.simps [simp del]

section \<open>Notions the properties are stated in\<close>

text \<open>The state a run ends in, whether the function returned or not.\<close>

fun state_of :: "'a result \<Rightarrow> machine" where
  "state_of (Return x s) = s"
| "state_of (Halt e s) = s"

text \<open>What \<open>uart_puts\<close> puts on the line: \<open>uart_putc\<close> sends a CR before every LF.\<close>

fun wire :: "string \<Rightarrow> string" where
  "wire [] = []"
| "wire (c # cs) = (if c = LF then [CR, LF] else [c]) @ wire cs"

text \<open>The line terminators of the size line, and the decimal value of a digit string.\<close>

definition terminator :: "char \<Rightarrow> bool" where
  "terminator c = (c = CR \<or> c = LF)"

definition digit_value :: "char \<Rightarrow> nat" where
  "digit_value c = of_char c - of_char (CHR ''0'')"

definition decimal :: "string \<Rightarrow> nat" where
  "decimal ds = foldl (\<lambda>v d. v * 10 + digit_value d) 0 ds"

text \<open>
  The spec's invariant (3): a header is valid iff the magic matches the sentinel,
  \<open>0 < size \<le> capacity - header size\<close>, and the checksum recomputed over the payload
  equals the stored one.
\<close>

definition image_valid :: "memory \<Rightarrow> bool" where
  "image_valid m =
     (let h = header_at m APP_BASE in
      hdr_magic h = BOOT_MAGIC \<and>
      0 < hdr_size h \<and> hdr_size h \<le> APP_MAX_SIZE - sizeof_fw_header \<and>
      crc32 (read_bytes m (APP_BASE + sizeof_fw_header) (unat (hdr_size h))) = hdr_crc32 h)"

text \<open>The stores of the receive loop, as events.\<close>

definition store_events :: "addr \<Rightarrow> nat \<Rightarrow> event list" where
  "store_events dest n = map (\<lambda>i. DirectStore (dest + of_nat i)) [0..<n]"

text \<open>
  The size a size line declares: the decimal value of its digits, in 32 bits. A size
  line is \<open>pre\<close>, free of terminators, and then a terminator.
\<close>

definition declared_size :: "string \<Rightarrow> 32 word" where
  "declared_size pre = of_nat (decimal (filter is_digit pre))"

definition size_ok :: "32 word \<Rightarrow> bool" where
  "size_ok sz = (0 < sz \<and> sz \<le> APP_MAX_SIZE - sizeof_fw_header)"

text \<open>
  The text of a sequence of \<open>uart_puts\<close> calls, each with the build's line end, as
  it appears on the line.
\<close>

definition said :: "build \<Rightarrow> string list \<Rightarrow> string" where
  "said b ls = concat (map (\<lambda>l. wire (l @ eol b)) ls)"

text \<open>
  The region after a complete session: erased, then the payload behind the header's
  place, then the header with the checksum of that payload.
\<close>

definition installed :: "32 word \<Rightarrow> byte list \<Rightarrow> memory \<Rightarrow> memory" where
  "installed sz payload m =
     copy_bytes APP_BASE
       (header_bytes \<lparr>hdr_magic = BOOT_MAGIC, hdr_size = sz,
                      hdr_crc32 = crc32 payload, hdr_version = 1\<rparr>)
       (copy_bytes (APP_BASE + sizeof_fw_header) payload
          (fill_ff APP_BASE (unat APP_MAX_SIZE) m))"

text \<open>The events of a complete session, in order.\<close>

definition session_events :: "build \<Rightarrow> 32 word \<Rightarrow> event list" where
  "session_events b sz =
     PlatformErase APP_BASE (unat APP_MAX_SIZE) #
     store_events (APP_BASE + sizeof_fw_header) (unat sz) @
     [CrcCall (APP_BASE + sizeof_fw_header) (unat sz), PlatformWrite APP_BASE 16,
      if direct_boot b then AppEntry else PlatformReset]"

text \<open>How often the platform's erase is called.\<close>

fun is_erase :: "event \<Rightarrow> bool" where
  "is_erase (PlatformErase a n) = True"
| "is_erase e = False"

definition erase_calls :: "event list \<Rightarrow> nat" where
  "erase_calls evs = length (filter is_erase evs)"

text \<open>
  The session of the spec's scenario T1, after the \<open>u\<close>: the host sends \<open>SEND 4\<close>, a
  newline and the four bytes \<open>DE AD BE EF\<close>. Scenario T3 is the same with one payload byte
  changed on the way.
\<close>

definition t1_session :: machine where
  "t1_session =
     \<lparr>mem = (\<lambda>_. 0xFF),
      rx = ''SEND 4'' @ [LF, CHR 0xDE, CHR 0xAD, CHR 0xBE, CHR 0xEF],
      tx = [], trace = []\<rparr>"

definition t3_session :: machine where
  "t3_session =
     \<lparr>mem = (\<lambda>_. 0xFF),
      rx = ''SEND 4'' @ [LF, CHR 0xDE, CHR 0xAD, CHR 0xBE, CHR 0xEE],
      tx = [], trace = []\<rparr>"

text \<open>The lines of a complete session, and the five things a session can say in all.\<close>

definition complete_lines :: "build \<Rightarrow> string list" where
  "complete_lines b =
     [''OK'', ''ERASING...'', ''READY'', ''CRC?'', ''OK'', ''REBOOT''] @
     (if direct_boot b then [''Jumping to application...'', ''APP_HANDOFF''] else [])"

definition transcripts :: "build \<Rightarrow> string list list" where
  "transcripts b =
     [[''OK'', ''ERR: CMD''], [''OK''], [''OK'', ''ERR: SIZE''],
      [''OK'', ''ERASING...'', ''READY''], complete_lines b]"

text \<open>How a run ended, if it did not return.\<close>

fun ending_of :: "'a result \<Rightarrow> ending option" where
  "ending_of (Return x s) = None"
| "ending_of (Halt e s) = Some e"

text \<open>
  What a session (or a loop around sessions) may add to the trace: nothing when it
  returns; when it hands off, a header write and the handoff last, in a build with the
  direct boot, on a valid image; otherwise no handoff.
\<close>

definition handoff_rule :: "build \<Rightarrow> memory \<Rightarrow> 'a result \<Rightarrow> event list \<Rightarrow> bool" where
  "handoff_rule b m r evs =
     (case r of
        Return u s' \<Rightarrow> evs = [] \<and> mem s' = m
      | Halt e s' \<Rightarrow>
          if e = Jumped then
            direct_boot b \<and> image_valid (mem s') \<and>
            (\<exists>pre. AppEntry \<notin> set pre \<and> evs = pre @ [PlatformWrite APP_BASE 16, AppEntry])
          else AppEntry \<notin> set evs)"

text \<open>The echo of the boot decision: the byte, and in the later revision a newline.\<close>

definition echo :: "build \<Rightarrow> char \<Rightarrow> string" where
  "echo b c =
     wire [c] @
     (case b of Main_c \<Rightarrow> [] | Part_005 _ \<Rightarrow> if c \<noteq> CR \<and> c \<noteq> LF then wire [LF] else [])"

text \<open>What \<open>print_banner\<close>, \<open>validate_app\<close> and the recovery loop put on the line.\<close>

definition banner_text :: "build \<Rightarrow> string" where
  "banner_text b =
     wire ((case b of Main_c \<Rightarrow> [LF, CR] | Part_005 _ \<Rightarrow> []) @
           ''======================================'' @ eol b) @
     wire (''   Professional RISC-V Bootloader    '' @ eol b) @
     wire (''   Target: '' @ PLATFORM_NAME @ ''        '' @ eol b) @
     wire (''======================================'' @ eol b)"

definition recovery_line :: string where
  "recovery_line = ''Recovery Loop: No valid app found. Press 'u' to update.''"

text \<open>The events of a call of \<open>validate_app\<close>, and the line it prints.\<close>

definition validate_events :: "memory \<Rightarrow> event list" where
  "validate_events m =
     (let h = header_at m APP_BASE in
      if hdr_magic h \<noteq> BOOT_MAGIC \<or> hdr_size h = 0 \<or> hdr_size h > APP_MAX_SIZE - sizeof_fw_header
      then [Validated (- 1)]
      else [CrcCall (APP_BASE + sizeof_fw_header) (unat (hdr_size h)),
            Validated (if image_valid m then 0 else - 1)])"

definition validate_text :: "build \<Rightarrow> memory \<Rightarrow> string" where
  "validate_text b m =
     (let h = header_at m APP_BASE in
      if hdr_magic h \<noteq> BOOT_MAGIC then said b [''Error: Invalid magic number'']
      else if hdr_size h = 0 \<or> hdr_size h > APP_MAX_SIZE - sizeof_fw_header
      then said b [''Error: Invalid firmware size'']
      else if image_valid m then [] else said b [''Error: CRC mismatch''])"

text \<open>Every string literal the loader passes to \<open>uart_puts\<close>, but the banner.\<close>

definition literals :: "string list" where
  "literals =
     [''OK'', ''ERR: CMD'', ''ERR: SIZE'', ''ERASING...'', ''READY'', ''CRC?'', ''REBOOT'',
      ''Jumping to application...'', ''APP_HANDOFF'', ''BOOT?'',
      ''Error: Invalid magic number'', ''Error: Invalid firmware size'', ''Error: CRC mismatch'',
      recovery_line]"

text \<open>
  A text in which no \<open>V\<close> is followed by a \<open>T\<close> holds neither \<open>BL_EVT:\<close> nor
  \<open>APP_EVT:\<close>. A text is calm when, besides, it is not empty, does not begin with
  \<open>T\<close> and does not end with \<open>V\<close>: calm texts can be put together.
\<close>

fun no_vt :: "string \<Rightarrow> bool" where
  "no_vt (a # b # cs) = (\<not> (a = CHR ''V'' \<and> b = CHR ''T'') \<and> no_vt (b # cs))"
| "no_vt cs = True"

definition calm :: "string \<Rightarrow> bool" where
  "calm out = (no_vt out \<and> out \<noteq> [] \<and> hd out \<noteq> CHR ''T'' \<and> last out \<noteq> CHR ''V'')"

text \<open>
  Scenario T2 followed by an update: the region is erased, the host sends a newline at
  the prompt, and then, in the recovery loop, \<open>u\<close> and the session of T1.
\<close>

definition recovery_update :: machine where
  "recovery_update =
     \<lparr>mem = (\<lambda>_. 0xFF),
      rx = [LF] @ ''uSEND 4'' @ [LF, CHR 0xDE, CHR 0xAD, CHR 0xBE, CHR 0xEF],
      tx = [], trace = []\<rparr>"

text \<open>A boot with the image of T1 installed and a newline at the prompt.\<close>

definition boot_installed :: machine where
  "boot_installed =
     \<lparr>mem = installed 4 [0xDE, 0xAD, 0xBE, 0xEF] (\<lambda>_. 0xFF), rx = [LF], tx = [], trace = []\<rparr>"

text \<open>Scenario T2: the region is erased and the host sends a newline at the prompt.\<close>

definition t2_boot :: machine where
  "t2_boot = \<lparr>mem = (\<lambda>_. 0xFF), rx = [LF], tx = [], trace = []\<rparr>"

text \<open>
  A memory given byte by byte: the application region begins with the bytes \<open>bs\<close>, and
  every other byte is erased. And the machine at reset with that memory, the host silent.
\<close>

definition region_with :: "byte list \<Rightarrow> memory" where
  "region_with bs a =
     (let i = unat (a - APP_BASE) in if i < length bs then bs ! i else 0xFF)"

definition boot_with :: "byte list \<Rightarrow> machine" where
  "boot_with bs = \<lparr>mem = region_with bs, rx = [], tx = [], trace = []\<rparr>"

section \<open>Memory\<close>

lemma le32_join:
  "ucast (ucast w :: byte) OR push_bit 8 (ucast (ucast (drop_bit 8 w) :: byte)) OR
   push_bit 16 (ucast (ucast (drop_bit 16 w) :: byte)) OR
   push_bit 24 (ucast (ucast (drop_bit 24 w) :: byte)) = (w :: 32 word)"
proof (rule bit_word_eqI)
  fix n :: nat
  assume "n < LENGTH(32)"
  then have n: "n < 32" by simp
  consider "n < 8" | "8 \<le> n" "n < 16" | "16 \<le> n" "n < 24" | "24 \<le> n"
    by linarith
  then show "bit (ucast (ucast w :: byte) OR push_bit 8 (ucast (ucast (drop_bit 8 w) :: byte)) OR
     push_bit 16 (ucast (ucast (drop_bit 16 w) :: byte)) OR
     push_bit 24 (ucast (ucast (drop_bit 24 w) :: byte)) :: 32 word) n = bit w n"
    using n by cases (auto simp add: bit_simps)
qed

lemma unat_sub_step:
  fixes x a :: "32 word"
  assumes "x \<noteq> a"
  shows "unat (x - a) = Suc (unat (x - (a + 1)))"
proof -
  have eq: "x - a = 1 + (x - (a + 1))" by simp
  have "1 + (x - (a + 1)) \<noteq> 0" using assms by (simp flip: eq)
  from unatSuc[OF this] show ?thesis by (simp flip: eq)
qed

lemma fill_ff_at:
  "n \<le> 2 ^ 32 \<Longrightarrow> fill_ff a n m x = (if unat (x - a) < n then 0xFF else m x)"
proof (induction n arbitrary: a m)
  case 0
  then show ?case by simp
next
  case (Suc n)
  then have IH: "fill_ff (a + 1) n m' x = (if unat (x - (a + 1)) < n then 0xFF else m' x)" for m'
    by simp
  show ?case
  proof (cases "x = a")
    case True
    show ?thesis unfolding fill_ff.simps IH using True by simp
  next
    case False
    from unat_sub_step[OF False] False show ?thesis by (simp add: IH)
  qed
qed

lemma copy_bytes_at:
  "length xs \<le> 2 ^ 32 \<Longrightarrow>
   copy_bytes a xs m x = (if unat (x - a) < length xs then xs ! unat (x - a) else m x)"
proof (induction xs arbitrary: a m)
  case Nil
  then show ?case by simp
next
  case (Cons y ys)
  then have IH: "copy_bytes (a + 1) ys m' x =
      (if unat (x - (a + 1)) < length ys then ys ! unat (x - (a + 1)) else m' x)" for m'
    by simp
  show ?case
  proof (cases "x = a")
    case True
    have "unat (x - (a + 1)) = 2 ^ 32 - 1"
      using True by (simp add: unsigned_minus_1_eq_mask mask_eq_exp_minus_1)
    with Cons.prems show ?thesis unfolding copy_bytes.simps IH using True by simp
  next
    case False
    from unat_sub_step[OF False] False show ?thesis by (simp add: IH)
  qed
qed

lemma unat_of_nat32: "i < 2 ^ 32 \<Longrightarrow> unat (of_nat i :: 32 word) = i"
  by (simp add: unat_of_nat)

lemma read_bytes_copy:
  assumes "length xs \<le> 2 ^ 32"
  shows "read_bytes (copy_bytes a xs m) a (length xs) = xs"
proof (rule nth_equalityI)
  show "length (read_bytes (copy_bytes a xs m) a (length xs)) = length xs"
    by (simp add: read_bytes_def)
next
  fix i assume "i < length (read_bytes (copy_bytes a xs m) a (length xs))"
  then have i: "i < length xs" by (simp add: read_bytes_def)
  with assms have "unat (of_nat i :: 32 word) = i" by (simp add: unat_of_nat32)
  with i assms show "read_bytes (copy_bytes a xs m) a (length xs) ! i = xs ! i"
    by (simp add: read_bytes_def copy_bytes_at)
qed

lemma read_bytes_past:
  assumes "length xs \<le> unat k" "unat k + n \<le> 2 ^ 32"
  shows "read_bytes (copy_bytes a xs m) (a + k) n = read_bytes m (a + k) n"
proof -
  have "copy_bytes a xs m (a + k + of_nat i) = m (a + k + of_nat i)" if "i < n" for i
  proof -
    have "unat (k + of_nat i) = unat k + i"
      using that assms by (simp add: unat_add_lem[THEN iffD1] unat_of_nat32)
    moreover have "a + k + of_nat i - a = k + of_nat i" by simp
    moreover have "length xs \<le> 2 ^ 32" using assms by simp
    ultimately show ?thesis using assms by (simp add: copy_bytes_at)
  qed
  then show ?thesis by (simp add: read_bytes_def)
qed

lemma header_at_copy:
  "header_at (copy_bytes a (header_bytes h) m) a = h"
  apply (simp add: header_at_def header_bytes_def le32_def load32_def)
  apply (simp add: le32_join)
  done

section \<open>The serial line\<close>

lemma uart_putc_eq: "uart_putc c s = s\<lparr>tx := tx s @ wire [c]\<rparr>"
  by (simp add: uart_putc_def platform_uart_putc_def)

lemma uart_puts_eq: "uart_puts str s = s\<lparr>tx := tx s @ wire str\<rparr>"
  unfolding uart_puts_def
  by (induction str arbitrary: s) (simp_all add: uart_putc_eq)

lemma uart_getc_Nil: "rx s = [] \<Longrightarrow> uart_getc s = Halt Stalled s"
  by (simp add: uart_getc_def platform_uart_getc_def)

lemma uart_getc_Cons: "rx s = c # cs \<Longrightarrow> uart_getc s = Return c (s\<lparr>rx := cs\<rparr>)"
  by (simp add: uart_getc_def platform_uart_getc_def)

section \<open>The flash layer\<close>

lemma unat_add_len:
  fixes a :: "32 word"
  assumes "unat a + n < 2 ^ 32"
  shows "unat (a + of_nat n) = unat a + n"
proof -
  have "unat (of_nat n :: 32 word) = n" using assms by (simp add: unat_of_nat32)
  with assms show ?thesis by (simp add: unat_add_lem[THEN iffD1])
qed

lemma region_end: "unat (APP_BASE + APP_MAX_SIZE) = unat APP_BASE + unat APP_MAX_SIZE"
  by (simp add: APP_BASE_def APP_MAX_SIZE_def)

lemma flash_write_rejects:
  assumes "unat a < unat APP_BASE \<or> unat APP_BASE + unat APP_MAX_SIZE < unat a + length data"
    and "unat a + length data < 2 ^ 32"
  shows "flash_write a data s = (- 1, s)"
proof -
  have "unat (a + of_nat (length data)) = unat a + length data"
    using assms(2) by (rule unat_add_len)
  with assms(1) show ?thesis
    by (auto simp: flash_write_def word_less_nat_alt region_end)
qed

lemma flash_write_delegates:
  assumes "unat APP_BASE \<le> unat a" "unat a + length data \<le> unat APP_BASE + unat APP_MAX_SIZE"
  shows "flash_write a data s = platform_flash_write a data s"
proof -
  have "unat a + length data < 2 ^ 32"
    using assms(2) by (simp add: APP_BASE_def APP_MAX_SIZE_def)
  then have "unat (a + of_nat (length data)) = unat a + length data"
    by (rule unat_add_len)
  with assms show ?thesis
    by (auto simp: flash_write_def word_less_nat_alt region_end)
qed

text \<open>
  C5. \<open>flash_write\<close> is meant to refuse every write that does not lie in the
  application partition before it touches the hardware, and it does so as long as
  \<open>addr + size\<close> does not pass \<open>2^32\<close> (\<open>flash_write_rejects\<close>,
  \<open>flash_write_delegates\<close>). The sum is computed in 32 bits, though: a write of 32
  bytes at \<open>0xFFFFFFF0\<close> ends beyond the partition, the wrapped sum \<open>0x10\<close> passes the
  check, and \<open>platform_flash_write\<close> is called and stores at \<open>0xFFFFFFF0 .. 0xFFFFFFFF\<close>
  and on at \<open>0 .. 0xF\<close>.
\<close>

theorem flash_write_wrapped_sum:
  "unat APP_BASE + unat APP_MAX_SIZE < unat (0xFFFFFFF0 :: 32 word) + length (replicate 32 (0xAA :: byte))
   \<and> flash_write 0xFFFFFFF0 (replicate 32 0xAA) s =
       (0, s\<lparr>mem := copy_bytes 0xFFFFFFF0 (replicate 32 0xAA) (mem s),
              trace := trace s @ [PlatformWrite 0xFFFFFFF0 32]\<rparr>)
   \<and> copy_bytes 0xFFFFFFF0 (replicate 32 0xAA) (mem s) 0xFFFFFFFF = 0xAA
   \<and> copy_bytes 0xFFFFFFF0 (replicate 32 0xAA) (mem s) 0 = 0xAA"
  by (simp add: flash_write_def platform_flash_write_def log_def APP_BASE_def APP_MAX_SIZE_def
        copy_bytes_at)

section \<open>The update session, step by step\<close>

lemma await_command_cases:
  "(\<exists>rest. rx s = cmd @ rest \<and> await_command b cmd s = Return True (s\<lparr>rx := rest\<rparr>)) \<or>
   (\<exists>rest. length rest < length (rx s) \<and>
      await_command b cmd s =
        Return False (s\<lparr>rx := rest, tx := tx s @ wire (''ERR: CMD'' @ eol b)\<rparr>)) \<or>
   await_command b cmd s = Halt Stalled (s\<lparr>rx := []\<rparr>)"
proof (induction cmd arbitrary: s)
  case Nil
  show ?case by simp
next
  case (Cons k cmd)
  show ?case
  proof (cases "rx s")
    case Nil
    then show ?thesis by (simp add: uart_getc_Nil)
  next
    case (Cons c cs)
    note g = uart_getc_Cons[OF Cons]
    show ?thesis
    proof (cases "c = k")
      case False
      with g have "await_command b (k # cmd) s =
          Return False (s\<lparr>rx := cs, tx := tx s @ wire (''ERR: CMD'' @ eol b)\<rparr>)"
        by (simp add: uart_puts_eq del: wire.simps)
      with Cons show ?thesis
        by (intro disjI2 disjI1 exI[of _ cs]) simp
    next
      case True
      with g have step: "await_command b (k # cmd) s = await_command b cmd (s\<lparr>rx := cs\<rparr>)"
        by simp
      let ?e = "tx s @ wire (''ERR: CMD'' @ eol b)"
      from Cons.IH[of "s\<lparr>rx := cs\<rparr>"]
      consider (ok) rest where "cs = cmd @ rest"
          "await_command b cmd (s\<lparr>rx := cs\<rparr>) = Return True (s\<lparr>rx := rest\<rparr>)"
        | (bad) rest where "length rest < length cs"
          "await_command b cmd (s\<lparr>rx := cs\<rparr>) = Return False (s\<lparr>rx := rest, tx := ?e\<rparr>)"
        | (stall) "await_command b cmd (s\<lparr>rx := cs\<rparr>) = Halt Stalled (s\<lparr>rx := []\<rparr>)"
        by (auto simp del: wire.simps)
      then show ?thesis
      proof cases
        case ok
        with Cons True show ?thesis
          unfolding step by (intro disjI1 exI[of _ rest]) simp
      next
        case bad
        with Cons show ?thesis
          unfolding step by (intro disjI2 disjI1 exI[of _ rest]) simp
      next
        case stall
        then show ?thesis
          unfolding step by (intro disjI2) simp
      qed
    qed
  qed
qed

lemma store_events_Suc: "store_events dest (Suc n) = DirectStore dest # store_events (dest + 1) n"
  by (simp add: store_events_def map_upt_Suc add.assoc del: upt_Suc)

lemma receive_aux:
  "unat sz - unat j = n \<Longrightarrow> j \<le> sz \<Longrightarrow> rx s = inp \<Longrightarrow>
   receive dest j sz s =
     (if n \<le> length inp then
        Return () (s\<lparr>mem := copy_bytes (dest + j) (map of_char (take n inp)) (mem s),
                     rx := drop n inp,
                     trace := trace s @ store_events (dest + j) n\<rparr>)
      else
        Halt Stalled (s\<lparr>mem := copy_bytes (dest + j) (map of_char inp) (mem s),
                        rx := [],
                        trace := trace s @ store_events (dest + j) (length inp)\<rparr>))"
proof (induction n arbitrary: j s inp)
  case 0
  then have "\<not> j < sz" by (simp add: word_less_nat_alt)
  with 0 show ?case
    by (subst receive.simps) (simp add: store_events_def)
next
  case (Suc n)
  then have lt: "j < sz" by (simp add: word_less_nat_alt)
  then have j1: "unat (j + 1) = unat j + 1" "j + 1 \<le> sz"
    by unat_arith+
  with Suc.prems have n: "unat sz - unat (j + 1) = n" by simp
  show ?case
  proof (cases inp)
    case Nil
    with Suc.prems lt show ?thesis
      by (subst receive.simps) (simp add: uart_getc_Nil store_events_def)
  next
    case (Cons c cs)
    with Suc.prems have g: "uart_getc s = Return c (s\<lparr>rx := cs\<rparr>)"
      by (simp add: uart_getc_Cons)
    let ?s1 = "log (DirectStore (dest + j))
                 (s\<lparr>rx := cs, mem := (mem s)(dest + j := of_char c)\<rparr>)"
    have rx1: "rx ?s1 = cs" by (simp add: log_def)
    show ?thesis
      apply (subst receive.simps)
      apply (simp add: lt g Suc.IH[OF n j1(2) rx1] Cons store_events_Suc)
      apply (simp add: log_def add.assoc)
      done
  qed
qed

section \<open>The size parser\<close>

lemma read_size_aux:
  "rx s = inp \<Longrightarrow> read_size sz s =
     (case dropWhile (\<lambda>c. \<not> terminator c) inp of
        [] \<Rightarrow> Halt Stalled (s\<lparr>rx := []\<rparr>)
      | t # rest \<Rightarrow>
          Return (foldl (\<lambda>v d. v * 10 + of_nat (digit_value d)) sz
                    (filter is_digit (takeWhile (\<lambda>c. \<not> terminator c) inp)))
                 (s\<lparr>rx := rest\<rparr>))"
proof (induction inp arbitrary: sz s)
  case Nil
  then show ?case
    by (subst read_size.simps) (simp add: uart_getc_Nil)
next
  case (Cons c cs)
  have g: "uart_getc s = Return c (s\<lparr>rx := cs\<rparr>)"
    using Cons.prems by (simp add: uart_getc_Cons)
  have IH: "read_size sz' (s\<lparr>rx := cs\<rparr>) =
     (case dropWhile (\<lambda>c. \<not> terminator c) cs of
        [] \<Rightarrow> Halt Stalled (s\<lparr>rx := []\<rparr>)
      | t # rest \<Rightarrow>
          Return (foldl (\<lambda>v d. v * 10 + of_nat (digit_value d)) sz'
                    (filter is_digit (takeWhile (\<lambda>c. \<not> terminator c) cs)))
                 (s\<lparr>rx := rest\<rparr>))" for sz'
    using Cons.IH[of "s\<lparr>rx := cs\<rparr>" sz'] by (simp cong: list.case_cong)
  show ?case
  proof (cases "terminator c")
    case True
    then have tc: "c = CR \<or> c = LF" by (simp add: terminator_def)
    show ?thesis
      by (subst read_size.simps) (simp add: g tc True del: char.inject)
  next
    case False
    then have nt: "\<not> (c = CR \<or> c = LF)" by (simp add: terminator_def)
    show ?thesis
      by (subst read_size.simps) (simp add: g nt False IH digit_value_def del: char.inject cong: list.case_cong)
  qed
qed

lemma foldl_decimal:
  "foldl (\<lambda>v d. v * 10 + of_nat (digit_value d)) (of_nat a :: 32 word) ds =
   of_nat (foldl (\<lambda>v d. v * 10 + digit_value d) a ds)"
proof (induction ds arbitrary: a)
  case Nil
  show ?case by simp
next
  case (Cons d ds)
  have e: "(of_nat a :: 32 word) * 10 + of_nat (digit_value d) = of_nat (a * 10 + digit_value d)"
    by (simp only: of_nat_add of_nat_mult of_nat_numeral)
  show ?case unfolding foldl_Cons e by (rule Cons)
qed

lemma foldl_decimal_zero:
  "foldl (\<lambda>v d. v * 10 + of_nat (digit_value d)) (0 :: 32 word) ds = of_nat (decimal ds)"
  using foldl_decimal[of 0 ds] by (simp add: decimal_def)

lemma read_size_zero:
  "read_size 0 s =
     (case dropWhile (\<lambda>c. \<not> terminator c) (rx s) of
        [] \<Rightarrow> Halt Stalled (s\<lparr>rx := []\<rparr>)
      | t # rest \<Rightarrow>
          Return (of_nat (decimal (filter is_digit (takeWhile (\<lambda>c. \<not> terminator c) (rx s)))))
                 (s\<lparr>rx := rest\<rparr>))"
  by (simp add: read_size_aux[OF refl] foldl_decimal_zero cong: list.case_cong)

text \<open>
  C10. The size loop drops every byte that is neither a decimal digit nor a line
  terminator: for every input, \<open>read_size\<close> started at 0 returns, at the first CR or
  LF, the decimal value of the digits before it, as a 32-bit word (the value modulo
  \<open>2^32\<close>), touches nothing but the input, and prints no error. With no terminator in
  the input it waits for ever.
\<close>

theorem read_size_skips_non_digits:
  "read_size 0 s =
     (case dropWhile (\<lambda>c. \<not> terminator c) (rx s) of
        [] \<Rightarrow> Halt Stalled (s\<lparr>rx := []\<rparr>)
      | t # rest \<Rightarrow>
          Return (of_nat (decimal (filter is_digit (takeWhile (\<lambda>c. \<not> terminator c) (rx s)))))
                 (s\<lparr>rx := rest\<rparr>))
   \<and> unat (of_nat (decimal ds) :: 32 word) = decimal ds mod 2 ^ 32"
  by (simp add: read_size_zero unat_of_nat cong: list.case_cong)

text \<open>After \<open>SEND \<close>, the bytes \<open>1x2\n\<close> are the size 12.\<close>

theorem read_size_skips_non_digits_witness:
  "read_size 0 \<lparr>mem = (\<lambda>_. 0), rx = ''1x2'' @ [LF] @ ''AB'', tx = [], trace = []\<rparr> =
     Return 12 \<lparr>mem = (\<lambda>_. 0), rx = ''AB'', tx = [], trace = []\<rparr>"
  using read_size_skips_non_digits
    [of "\<lparr>mem = (\<lambda>_. 0), rx = ''1x2'' @ [LF] @ ''AB'', tx = [], trace = []\<rparr>" "[]"]
  by (simp add: terminator_def is_digit_def decimal_def digit_value_def)

section \<open>Validation\<close>

lemma validate_app_eq:
  "validate_app b s =
     (let h = header_at (mem s) APP_BASE;
          payload = read_bytes (mem s) (APP_BASE + sizeof_fw_header) (unat (hdr_size h))
      in if hdr_magic h \<noteq> BOOT_MAGIC then
           (- 1, s\<lparr>tx := tx s @ wire (''Error: Invalid magic number'' @ eol b),
                  trace := trace s @ [Validated (- 1)]\<rparr>)
         else if hdr_size h = 0 \<or> hdr_size h > APP_MAX_SIZE - sizeof_fw_header then
           (- 1, s\<lparr>tx := tx s @ wire (''Error: Invalid firmware size'' @ eol b),
                  trace := trace s @ [Validated (- 1)]\<rparr>)
         else if crc32 payload \<noteq> hdr_crc32 h then
           (- 1, s\<lparr>tx := tx s @ wire (''Error: CRC mismatch'' @ eol b),
                  trace := trace s @
                    [CrcCall (APP_BASE + sizeof_fw_header) (unat (hdr_size h)), Validated (- 1)]\<rparr>)
         else
           (0, s\<lparr>trace := trace s @
                    [CrcCall (APP_BASE + sizeof_fw_header) (unat (hdr_size h)), Validated 0]\<rparr>))"
  by (auto simp: validate_app_def crc32_at_def uart_puts_eq log_def Let_def simp del: wire.simps)

lemma validate_app_ok_iff: "(fst (validate_app b s) = 0) = image_valid (mem s)"
  by (auto simp: validate_app_def image_valid_def crc32_at_def uart_puts_eq log_def Let_def
        word_neq_0_conv not_less simp del: wire.simps)

text \<open>The four bytes of a \<open>uint32_t\<close> as a number, least significant byte first.\<close>

lemma load32_sum:
  "load32 m a =
     of_nat (unat (m a) + 256 * unat (m (a + 1)) + 65536 * unat (m (a + 2)) +
             16777216 * unat (m (a + 3)))"
proof -
  define b0 b1 b2 b3 where "b0 = m a" and "b1 = m (a + 1)" and "b2 = m (a + 2)" and "b3 = m (a + 3)"
  define x2 :: "32 word" where "x2 = push_bit 16 (ucast b2) OR push_bit 24 (ucast b3)"
  define x1 :: "32 word" where "x1 = push_bit 8 (ucast b1) OR x2"
  have "(push_bit 16 (ucast b2) :: 32 word) AND push_bit 24 (ucast b3) = 0"
    by (rule bit_word_eqI) (auto simp: bit_simps dest: bit_imp_le_length)
  hence 1: "x2 = push_bit 16 (ucast b2) + push_bit 24 (ucast b3)"
    unfolding x2_def by (rule disjunctive_add_eq_or[symmetric])
  have "(push_bit 8 (ucast b1) :: 32 word) AND x2 = 0"
    unfolding x2_def by (rule bit_word_eqI) (auto simp: bit_simps dest: bit_imp_le_length)
  hence 2: "x1 = push_bit 8 (ucast b1) + x2"
    unfolding x1_def by (rule disjunctive_add_eq_or[symmetric])
  have "(ucast b0 :: 32 word) AND x1 = 0"
    unfolding x1_def x2_def by (rule bit_word_eqI) (auto simp: bit_simps dest: bit_imp_le_length)
  hence 3: "ucast b0 OR x1 = ucast b0 + x1"
    by (rule disjunctive_add_eq_or[symmetric])
  have "load32 m a = ucast b0 OR x1"
    unfolding load32_def x1_def x2_def b0_def b1_def b2_def b3_def ..
  also have "\<dots> = ucast b0 + x1"
    by (rule 3)
  also have "\<dots> = of_nat (unat b0 + 256 * unat b1 + 65536 * unat b2 + 16777216 * unat b3)"
    unfolding 2 1 by (simp add: push_bit_eq_mult)
  finally show ?thesis
    unfolding b0_def b1_def b2_def b3_def .
qed

text \<open>The bytes of a memory given byte by byte, and the checksums of two payloads.\<close>

lemma region_with_at:
  "region_with bs (APP_BASE + w) = (if unat w < length bs then bs ! unat w else 0xFF)"
  by (simp add: region_with_def Let_def)

lemma region_with_base:
  "region_with bs APP_BASE = (if 0 < length bs then bs ! 0 else 0xFF)"
  by (simp add: region_with_def Let_def)

lemma funpow8: "(f ^^ 8) x = f (f (f (f (f (f (f (f x)))))))"
  by (simp add: numeral_eq_Suc)

lemma crc32_t1: "crc32 [0xDE, 0xAD, 0xBE, 0xEF] = 0x7C9CA35A"
  by (simp add: crc32_def crc_byte_def crc_bit_def funpow8)

lemma crc32_t3: "crc32 [0xDE, 0xAD, 0xBE, 0xEE] = 0x0B9B93CC"
  by (simp add: crc32_def crc_byte_def crc_bit_def funpow8)

lemma upt_4: "[0..<4] = [0, 1, 2, 3::nat]"
  by (simp add: upt_rec)

lemmas region_eval =
  Let_def boot_with_def region_with_at region_with_base sizeof_fw_header_def add.assoc
  BOOT_MAGIC_def APP_MAX_SIZE_def upt_4 crc32_t1 crc32_t3 APP_BASE_def[symmetric]

text \<open>
  C3. What \<open>validate_app\<close> answers is fixed by the bytes of the application region, for
  every state of the machine. Read the byte at offset \<open>k\<close> of the region as a number, and
  the four bytes from offset \<open>k\<close> as a 32-bit number, least significant byte first: the
  magic is the field at offset 0, the size the field at offset 4, the stored checksum the
  field at offset 8, and the payload the \<open>size\<close> bytes from offset 16. \<open>validate_app\<close>
  makes three checks in this order and stops at the first that fails: the magic is
  \<open>BOOT_MAGIC\<close> (else \<open>Error: Invalid magic number\<close>), the size is not 0 and at most
  \<open>APP_MAX_SIZE - sizeof(fw_header_t)\<close> (else \<open>Error: Invalid firmware size\<close>), the CRC
  of exactly those \<open>size\<close> payload bytes is the stored checksum (else
  \<open>Error: CRC mismatch\<close>). \<open>crc32\<close> is called only when the first two checks have
  passed. The result is 0 exactly when all three checks pass, and -1 otherwise. Memory
  and input are left as they were.
\<close>

theorem validate_app_checks:
  "(let byte = (\<lambda>k. unat (mem s (APP_BASE + of_nat k)));
        field = (\<lambda>k. (of_nat (byte k + 256 * byte (k + 1) + 65536 * byte (k + 2) +
                                16777216 * byte (k + 3)) :: 32 word));
        magic = field 0; size = field 4; stored = field 8;
        payload = map (\<lambda>i. mem s (APP_BASE + sizeof_fw_header + of_nat i)) [0..<unat size]
    in validate_app b s =
         (if magic \<noteq> BOOT_MAGIC then
            (- 1, s\<lparr>tx := tx s @ wire (''Error: Invalid magic number'' @ eol b),
                   trace := trace s @ [Validated (- 1)]\<rparr>)
          else if size = 0 \<or> size > APP_MAX_SIZE - sizeof_fw_header then
            (- 1, s\<lparr>tx := tx s @ wire (''Error: Invalid firmware size'' @ eol b),
                   trace := trace s @ [Validated (- 1)]\<rparr>)
          else if crc32 payload \<noteq> stored then
            (- 1, s\<lparr>tx := tx s @ wire (''Error: CRC mismatch'' @ eol b),
                   trace := trace s @
                     [CrcCall (APP_BASE + sizeof_fw_header) (unat size), Validated (- 1)]\<rparr>)
          else
            (0, s\<lparr>trace := trace s @
                     [CrcCall (APP_BASE + sizeof_fw_header) (unat size), Validated 0]\<rparr>))
      \<and> (fst (validate_app b s) = 0) =
          (magic = BOOT_MAGIC \<and> size \<noteq> 0 \<and> size \<le> APP_MAX_SIZE - sizeof_fw_header \<and>
           crc32 payload = stored)
      \<and> mem (snd (validate_app b s)) = mem s \<and> rx (snd (validate_app b s)) = rx s)"
proof -
  have f0: "load32 (mem s) APP_BASE =
      of_nat (unat (mem s (APP_BASE + of_nat 0)) + 256 * unat (mem s (APP_BASE + of_nat (0 + 1))) +
              65536 * unat (mem s (APP_BASE + of_nat (0 + 2))) +
              16777216 * unat (mem s (APP_BASE + of_nat (0 + 3))))"
    by (simp add: load32_sum)
  have f4: "load32 (mem s) (APP_BASE + 4) =
      of_nat (unat (mem s (APP_BASE + of_nat 4)) + 256 * unat (mem s (APP_BASE + of_nat (4 + 1))) +
              65536 * unat (mem s (APP_BASE + of_nat (4 + 2))) +
              16777216 * unat (mem s (APP_BASE + of_nat (4 + 3))))"
    by (simp add: load32_sum add.assoc)
  have f8: "load32 (mem s) (APP_BASE + 8) =
      of_nat (unat (mem s (APP_BASE + of_nat 8)) + 256 * unat (mem s (APP_BASE + of_nat (8 + 1))) +
              65536 * unat (mem s (APP_BASE + of_nat (8 + 2))) +
              16777216 * unat (mem s (APP_BASE + of_nat (8 + 3))))"
    by (simp add: load32_sum add.assoc)
  have h: "hdr_magic (header_at (mem s) APP_BASE) = load32 (mem s) APP_BASE"
          "hdr_size (header_at (mem s) APP_BASE) = load32 (mem s) (APP_BASE + 4)"
          "hdr_crc32 (header_at (mem s) APP_BASE) = load32 (mem s) (APP_BASE + 8)"
    by (simp_all add: header_at_def)
  show ?thesis
    unfolding Let_def validate_app_eq[of b s] h read_bytes_def
      f0[symmetric] f4[symmetric] f8[symmetric]
    by (auto simp: word_neq_0_conv not_less)
qed

text \<open>
  Five regions, byte by byte. The image of scenario T1 (magic \<open>4C 42 56 52\<close>, size 4,
  checksum \<open>5A A3 9C 7C\<close>, version 1, payload \<open>DE AD BE EF\<close>) is accepted after one call
  of \<open>crc32\<close> over four bytes. With the last payload byte changed the checksum fails.
  With the size field 0, or 458737 (one more than fits), the size fails and \<open>crc32\<close> is
  not called. An erased region, where size and checksum are wrong too, fails on the magic.
\<close>

theorem validate_app_checks_witness:
  "validate_app Main_c
     (boot_with [0x4C, 0x42, 0x56, 0x52, 4, 0, 0, 0, 0x5A, 0xA3, 0x9C, 0x7C, 1, 0, 0, 0,
                 0xDE, 0xAD, 0xBE, 0xEF])
   = (0, (boot_with [0x4C, 0x42, 0x56, 0x52, 4, 0, 0, 0, 0x5A, 0xA3, 0x9C, 0x7C, 1, 0, 0, 0,
                     0xDE, 0xAD, 0xBE, 0xEF])
           \<lparr>trace := [CrcCall 0x80010010 4, Validated 0]\<rparr>)
   \<and> validate_app Main_c
     (boot_with [0x4C, 0x42, 0x56, 0x52, 4, 0, 0, 0, 0x5A, 0xA3, 0x9C, 0x7C, 1, 0, 0, 0,
                 0xDE, 0xAD, 0xBE, 0xEE])
   = (- 1, (boot_with [0x4C, 0x42, 0x56, 0x52, 4, 0, 0, 0, 0x5A, 0xA3, 0x9C, 0x7C, 1, 0, 0, 0,
                       0xDE, 0xAD, 0xBE, 0xEE])
           \<lparr>tx := ''Error: CRC mismatch'' @ [CR, LF, CR],
            trace := [CrcCall 0x80010010 4, Validated (- 1)]\<rparr>)
   \<and> validate_app (Part_005 True)
     (boot_with [0x4C, 0x42, 0x56, 0x52, 0, 0, 0, 0, 0x5A, 0xA3, 0x9C, 0x7C, 1, 0, 0, 0,
                 0xDE, 0xAD, 0xBE, 0xEF])
   = (- 1, (boot_with [0x4C, 0x42, 0x56, 0x52, 0, 0, 0, 0, 0x5A, 0xA3, 0x9C, 0x7C, 1, 0, 0, 0,
                       0xDE, 0xAD, 0xBE, 0xEF])
           \<lparr>tx := ''Error: Invalid firmware size'' @ [CR, LF],
            trace := [Validated (- 1)]\<rparr>)
   \<and> validate_app Main_c
     (boot_with [0x4C, 0x42, 0x56, 0x52, 0xF1, 0xFF, 0x06, 0, 0x5A, 0xA3, 0x9C, 0x7C, 1, 0, 0, 0,
                 0xDE, 0xAD, 0xBE, 0xEF])
   = (- 1, (boot_with [0x4C, 0x42, 0x56, 0x52, 0xF1, 0xFF, 0x06, 0, 0x5A, 0xA3, 0x9C, 0x7C, 1, 0, 0, 0,
                       0xDE, 0xAD, 0xBE, 0xEF])
           \<lparr>tx := ''Error: Invalid firmware size'' @ [CR, LF, CR],
            trace := [Validated (- 1)]\<rparr>)
   \<and> validate_app Main_c (boot_with [])
   = (- 1, (boot_with [])
           \<lparr>tx := ''Error: Invalid magic number'' @ [CR, LF, CR],
            trace := [Validated (- 1)]\<rparr>)"
proof -
  have 1: "validate_app Main_c
     (boot_with [0x4C, 0x42, 0x56, 0x52, 4, 0, 0, 0, 0x5A, 0xA3, 0x9C, 0x7C, 1, 0, 0, 0,
                 0xDE, 0xAD, 0xBE, 0xEF])
   = (0, (boot_with [0x4C, 0x42, 0x56, 0x52, 4, 0, 0, 0, 0x5A, 0xA3, 0x9C, 0x7C, 1, 0, 0, 0,
                     0xDE, 0xAD, 0xBE, 0xEF])
           \<lparr>trace := [CrcCall 0x80010010 4, Validated 0]\<rparr>)"
    using validate_app_checks[of
        "boot_with [0x4C, 0x42, 0x56, 0x52, 4, 0, 0, 0, 0x5A, 0xA3, 0x9C, 0x7C, 1, 0, 0, 0,
                    0xDE, 0xAD, 0xBE, 0xEF]" Main_c]
    by (simp add: region_eval)
  have 2: "validate_app Main_c
     (boot_with [0x4C, 0x42, 0x56, 0x52, 4, 0, 0, 0, 0x5A, 0xA3, 0x9C, 0x7C, 1, 0, 0, 0,
                 0xDE, 0xAD, 0xBE, 0xEE])
   = (- 1, (boot_with [0x4C, 0x42, 0x56, 0x52, 4, 0, 0, 0, 0x5A, 0xA3, 0x9C, 0x7C, 1, 0, 0, 0,
                       0xDE, 0xAD, 0xBE, 0xEE])
           \<lparr>tx := ''Error: CRC mismatch'' @ [CR, LF, CR],
            trace := [CrcCall 0x80010010 4, Validated (- 1)]\<rparr>)"
    using validate_app_checks[of
        "boot_with [0x4C, 0x42, 0x56, 0x52, 4, 0, 0, 0, 0x5A, 0xA3, 0x9C, 0x7C, 1, 0, 0, 0,
                    0xDE, 0xAD, 0xBE, 0xEE]" Main_c]
    by (simp add: region_eval)
  have 3: "validate_app (Part_005 True)
     (boot_with [0x4C, 0x42, 0x56, 0x52, 0, 0, 0, 0, 0x5A, 0xA3, 0x9C, 0x7C, 1, 0, 0, 0,
                 0xDE, 0xAD, 0xBE, 0xEF])
   = (- 1, (boot_with [0x4C, 0x42, 0x56, 0x52, 0, 0, 0, 0, 0x5A, 0xA3, 0x9C, 0x7C, 1, 0, 0, 0,
                       0xDE, 0xAD, 0xBE, 0xEF])
           \<lparr>tx := ''Error: Invalid firmware size'' @ [CR, LF],
            trace := [Validated (- 1)]\<rparr>)"
    using validate_app_checks[of
        "boot_with [0x4C, 0x42, 0x56, 0x52, 0, 0, 0, 0, 0x5A, 0xA3, 0x9C, 0x7C, 1, 0, 0, 0,
                    0xDE, 0xAD, 0xBE, 0xEF]" "Part_005 True"]
    by (simp add: region_eval)
  have 4: "validate_app Main_c
     (boot_with [0x4C, 0x42, 0x56, 0x52, 0xF1, 0xFF, 0x06, 0, 0x5A, 0xA3, 0x9C, 0x7C, 1, 0, 0, 0,
                 0xDE, 0xAD, 0xBE, 0xEF])
   = (- 1, (boot_with [0x4C, 0x42, 0x56, 0x52, 0xF1, 0xFF, 0x06, 0, 0x5A, 0xA3, 0x9C, 0x7C, 1, 0, 0, 0,
                       0xDE, 0xAD, 0xBE, 0xEF])
           \<lparr>tx := ''Error: Invalid firmware size'' @ [CR, LF, CR],
            trace := [Validated (- 1)]\<rparr>)"
    using validate_app_checks[of
        "boot_with [0x4C, 0x42, 0x56, 0x52, 0xF1, 0xFF, 0x06, 0, 0x5A, 0xA3, 0x9C, 0x7C, 1, 0, 0, 0,
                    0xDE, 0xAD, 0xBE, 0xEF]" Main_c]
    by (simp add: region_eval)
  have 5: "validate_app Main_c (boot_with [])
   = (- 1, (boot_with [])
           \<lparr>tx := ''Error: Invalid magic number'' @ [CR, LF, CR],
            trace := [Validated (- 1)]\<rparr>)"
    using validate_app_checks[of "boot_with []" Main_c]
    by (simp add: region_eval)
  show ?thesis
    by (rule conjI 1 2 3 4 5)+
qed

lemma load32_erased:
  assumes "m a = 0xFF" "m (a + 1) = 0xFF" "m (a + 2) = 0xFF" "m (a + 3) = 0xFF"
  shows "load32 m a = 0xFFFFFFFF"
  by (simp add: load32_def assms)

lemma erased_magic:
  assumes "\<forall>i<unat APP_MAX_SIZE. m (APP_BASE + of_nat i) = 0xFF"
  shows "hdr_magic (header_at m APP_BASE) = 0xFFFFFFFF"
proof -
  have n: "unat APP_MAX_SIZE = 458752" by (simp add: APP_MAX_SIZE_def)
  have "m APP_BASE = 0xFF" "m (APP_BASE + 1) = 0xFF"
       "m (APP_BASE + 2) = 0xFF" "m (APP_BASE + 3) = 0xFF"
    using assms[rule_format, of 0] assms[rule_format, of 1]
      assms[rule_format, of 2] assms[rule_format, of 3]
    unfolding n by simp_all
  then show ?thesis
    by (simp add: header_at_def load32_erased)
qed

text \<open>
  C7. When every byte of the application region is \<open>0xFF\<close>, validation fails at the
  magic check.
\<close>

theorem erased_region_fails_bad_magic:
  assumes "\<forall>i<unat APP_MAX_SIZE. mem s (APP_BASE + of_nat i) = 0xFF"
  shows "validate_app b s =
           (- 1, s\<lparr>tx := tx s @ wire (''Error: Invalid magic number'' @ eol b),
                  trace := trace s @ [Validated (- 1)]\<rparr>)"
  using erased_magic[OF assms]
  by (simp add: validate_app_def BOOT_MAGIC_def uart_puts_eq log_def Let_def)

lemma flash_erase_app_erased:
  "i < unat APP_MAX_SIZE \<Longrightarrow> mem (snd (flash_erase_app s)) (APP_BASE + of_nat i) = 0xFF"
proof -
  assume i: "i < unat APP_MAX_SIZE"
  have n: "unat APP_MAX_SIZE = 458752" by (simp add: APP_MAX_SIZE_def)
  have "unat (of_nat i :: 32 word) = i" using i unfolding n by (simp add: unat_of_nat32)
  with i show ?thesis
    by (simp add: flash_erase_app_def platform_flash_erase_def log_def fill_ff_at n)
qed

text \<open>The region as \<open>flash_erase_app\<close> leaves it is such a region.\<close>

theorem erased_region_fails_bad_magic_witness:
  "validate_app Main_c (snd (flash_erase_app \<lparr>mem = (\<lambda>_. 0), rx = [], tx = [], trace = []\<rparr>)) =
     (- 1, \<lparr>mem = fill_ff APP_BASE 458752 (\<lambda>_. 0), rx = [],
            tx = ''Error: Invalid magic number'' @ [CR, LF, CR],
            trace = [PlatformErase APP_BASE 458752, Validated (- 1)]\<rparr>)"
  using erased_region_fails_bad_magic
    [of "snd (flash_erase_app \<lparr>mem = (\<lambda>_. 0), rx = [], tx = [], trace = []\<rparr>)" Main_c]
  by (simp add: flash_erase_app_erased)
     (simp add: flash_erase_app_def platform_flash_erase_def log_def APP_MAX_SIZE_def)

section \<open>The update session as a whole\<close>

lemma said_Cons: "said b (l # ls) = wire (l @ eol b) @ said b ls"
  by (simp add: said_def)

lemma await_command_match:
  "rx s = cmd @ rest \<Longrightarrow> await_command b cmd s = Return True (s\<lparr>rx := rest\<rparr>)"
proof (induction cmd arbitrary: s)
  case Nil
  then show ?case by simp
next
  case (Cons k cmd)
  then have g: "uart_getc s = Return k (s\<lparr>rx := cmd @ rest\<rparr>)"
    by (simp add: uart_getc_Cons)
  from Cons.IH[of "s\<lparr>rx := cmd @ rest\<rparr>"] g show ?case by simp
qed

lemma read_size_line:
  assumes "rx s = pre @ t # rest" "terminator t" "list_all (\<lambda>c. \<not> terminator c) pre"
  shows "read_size 0 s = Return (declared_size pre) (s\<lparr>rx := rest\<rparr>)"
proof -
  have p: "\<And>c. c \<in> set pre \<Longrightarrow> \<not> terminator c"
    using assms(3) by (simp add: list_all_iff)
  have d: "dropWhile (\<lambda>c. \<not> terminator c) (rx s) = t # rest"
    using assms(1,2) p by (simp add: dropWhile_append2)
  have tk: "takeWhile (\<lambda>c. \<not> terminator c) (rx s) = pre"
    using assms(1,2) p by (simp add: takeWhile_append2)
  show ?thesis
    by (simp add: read_size_aux[OF refl] foldl_decimal_zero d tk declared_size_def)
qed

lemma size_ok_iff: "size_ok sz = (\<not> (sz = 0 \<or> sz > APP_MAX_SIZE - sizeof_fw_header))"
  by (auto simp: size_ok_def word_neq_0_conv not_less)

lemma uart_update_line:
  assumes line: "rx s = ''SEND '' @ pre @ t # rest" "terminator t"
      "list_all (\<lambda>c. \<not> terminator c) pre"
  shows "uart_update b s =
    (let sz = declared_size pre; n = unat sz; payload = map of_char (take n rest) in
     if \<not> size_ok sz then
       Return () (s\<lparr>rx := rest, tx := tx s @ said b [''OK'', ''ERR: SIZE'']\<rparr>)
     else if n \<le> length rest then
       Halt (if direct_boot b then Jumped else Rebooted)
         (s\<lparr>mem := installed sz payload (mem s),
             rx := drop n rest,
             tx := tx s @ said b ([''OK'', ''ERASING...'', ''READY'', ''CRC?'', ''OK'', ''REBOOT''] @
                     (if direct_boot b then [''Jumping to application...'', ''APP_HANDOFF''] else [])),
             trace := trace s @ session_events b sz\<rparr>)
     else
       Halt Stalled
         (s\<lparr>mem := copy_bytes (APP_BASE + sizeof_fw_header) (map of_char rest)
                      (fill_ff APP_BASE (unat APP_MAX_SIZE) (mem s)),
             rx := [],
             tx := tx s @ said b [''OK'', ''ERASING...'', ''READY''],
             trace := trace s @ PlatformErase APP_BASE (unat APP_MAX_SIZE) #
                        store_events (APP_BASE + sizeof_fw_header) (length rest)\<rparr>))"
proof -
  define sz where "sz = declared_size pre"
  define s1 where "s1 = uart_puts (''OK'' @ eol b) s"
  have s1: "s1 = s\<lparr>tx := tx s @ said b [''OK'']\<rparr>"
    by (simp add: s1_def uart_puts_eq said_def del: wire.simps)
  have cmd: "await_command b ''SEND '' s1 = Return True (s1\<lparr>rx := pre @ t # rest\<rparr>)"
    by (rule await_command_match) (simp add: s1 line(1))
  have size: "read_size 0 (s1\<lparr>rx := pre @ t # rest\<rparr>) = Return sz (s1\<lparr>rx := rest\<rparr>)"
    using read_size_line[of "s1\<lparr>rx := pre @ t # rest\<rparr>" pre t rest] line(2,3)
    by (simp add: sz_def)
  show ?thesis
  proof (cases "size_ok sz")
    case False
    then have bad: "sz = 0 \<or> sz > APP_MAX_SIZE - sizeof_fw_header"
      by (simp add: size_ok_iff)
    have "uart_update b s = Return () (uart_puts (''ERR: SIZE'' @ eol b) (s1\<lparr>rx := rest\<rparr>))"
      by (simp only: uart_update_def Let_def s1_def[symmetric] cmd size result.case bool.case
            eqTrueI[OF bad] if_True)
    with False show ?thesis
      by (simp add: sz_def[symmetric] s1 uart_puts_eq said_def del: wire.simps)
  next
    case True
    then have good: "\<not> (sz = 0 \<or> sz > APP_MAX_SIZE - sizeof_fw_header)"
      by (simp add: size_ok_iff)
    define se where "se = snd (flash_erase_app (uart_puts (''ERASING...'' @ eol b) (s1\<lparr>rx := rest\<rparr>)))"
    define s4 where "s4 = uart_puts (''READY'' @ eol b) se"
    have s4: "s4 = s\<lparr>mem := fill_ff APP_BASE (unat APP_MAX_SIZE) (mem s), rx := rest,
        tx := tx s @ said b [''OK'', ''ERASING...'', ''READY''],
        trace := trace s @ [PlatformErase APP_BASE (unat APP_MAX_SIZE)]\<rparr>"
      by (simp add: s4_def se_def s1 uart_puts_eq said_def flash_erase_app_def
            platform_flash_erase_def log_def del: wire.simps)
    have erase: "flash_erase_app (uart_puts (''ERASING...'' @ eol b) (s1\<lparr>rx := rest\<rparr>)) = (0, se)"
      by (simp add: se_def flash_erase_app_def platform_flash_erase_def)
    have rcv: "receive (APP_BASE + sizeof_fw_header) 0 sz s4 =
      (if unat sz \<le> length rest then
         Return () (s4\<lparr>mem := copy_bytes (APP_BASE + sizeof_fw_header)
                            (map of_char (take (unat sz) rest)) (mem s4),
                       rx := drop (unat sz) rest,
                       trace := trace s4 @ store_events (APP_BASE + sizeof_fw_header) (unat sz)\<rparr>)
       else
         Halt Stalled (s4\<lparr>mem := copy_bytes (APP_BASE + sizeof_fw_header) (map of_char rest) (mem s4),
                          rx := [],
                          trace := trace s4 @ store_events (APP_BASE + sizeof_fw_header) (length rest)\<rparr>))"
      using receive_aux[of sz 0 "unat sz" s4 rest "APP_BASE + sizeof_fw_header"]
      by (simp add: s4)
    have body: "uart_update b s =
        (case receive (APP_BASE + sizeof_fw_header) 0 sz s4 of
           Halt e s' \<Rightarrow> Halt e s'
         | Return _ s5 \<Rightarrow>
            (case crc32_at (APP_BASE + sizeof_fw_header) sz s5 of
               (crc, s6) \<Rightarrow>
                (case flash_write_header
                        \<lparr>hdr_magic = BOOT_MAGIC, hdr_size = sz,
                         hdr_crc32 = crc, hdr_version = 1\<rparr> s6 of
                   (rc, s7) \<Rightarrow>
                     if rc \<noteq> 0 then
                       Return () (uart_puts (''ERR: HEADER'' @ eol b) s7)
                     else
                       (let s8 = uart_puts (''CRC?'' @ eol b) s7;
                            s9 = uart_puts (''OK'' @ eol b) s8;
                            s10 = uart_puts (''REBOOT'' @ eol b) s9
                        in if direct_boot b then jump_to_app b s10
                           else platform_reset s10))))"
      by (simp only: uart_update_def Let_def s1_def[symmetric] cmd size result.case bool.case
            eq_False[THEN iffD2, OF good] if_False erase prod.case s4_def[symmetric]
            simp_thms if_True)
    show ?thesis
    proof (cases "unat sz \<le> length rest")
      case False
      with True show ?thesis
        unfolding body rcv
        by (simp add: sz_def[symmetric] s4)
    next
      case enough: True
      let ?payload = "map of_char (take (unat sz) rest) :: byte list"
      have len: "length ?payload = unat sz" using enough by simp
      have "length ?payload \<le> 2 ^ 32"
        unfolding len using unsigned_less[of sz, where 'a=nat] by simp
      then have rd: "read_bytes (copy_bytes (APP_BASE + sizeof_fw_header) ?payload m)
          (APP_BASE + sizeof_fw_header) (unat sz) = ?payload" for m
        using read_bytes_copy[of ?payload "APP_BASE + sizeof_fw_header" m] len by simp
      have hb: "length (header_bytes h) = 16" for h
        by (simp add: header_bytes_def le32_def)
      from True enough show ?thesis
        unfolding body rcv
        apply (simp add: sz_def[symmetric])
        apply (simp add: crc32_at_def flash_write_header_def platform_flash_write_def log_def hb
            uart_puts_eq jump_to_app_def platform_reset_def Let_def del: wire.simps)
        apply (cases b)
         apply (simp_all add: s4 rd said_def installed_def session_events_def uart_puts_eq
            del: wire.simps)
        done
    qed
  qed
qed

lemma installed_valid:
  assumes "size_ok sz" "length payload = unat sz"
  shows "image_valid (installed sz payload m)"
    and "header_at (installed sz payload m) APP_BASE =
           \<lparr>hdr_magic = BOOT_MAGIC, hdr_size = sz, hdr_crc32 = crc32 payload, hdr_version = 1\<rparr>"
    and "read_bytes (installed sz payload m) (APP_BASE + sizeof_fw_header) (unat sz) = payload"
proof -
  let ?h = "\<lparr>hdr_magic = BOOT_MAGIC, hdr_size = sz, hdr_crc32 = crc32 payload, hdr_version = 1\<rparr>"
  let ?m1 = "copy_bytes (APP_BASE + sizeof_fw_header) payload
               (fill_ff APP_BASE (unat APP_MAX_SIZE) m)"
  show h: "header_at (installed sz payload m) APP_BASE = ?h"
    by (simp add: installed_def header_at_copy)
  have bound: "unat sz \<le> 458736"
    using assms(1) by (simp add: size_ok_def APP_MAX_SIZE_def sizeof_fw_header_def word_le_nat_alt)
  have "length (header_bytes ?h) \<le> unat sizeof_fw_header"
    by (simp add: header_bytes_def le32_def sizeof_fw_header_def)
  moreover have "unat sizeof_fw_header + unat sz \<le> 2 ^ 32"
    using bound by (simp add: sizeof_fw_header_def)
  ultimately have "read_bytes (installed sz payload m) (APP_BASE + sizeof_fw_header) (unat sz) =
      read_bytes ?m1 (APP_BASE + sizeof_fw_header) (unat sz)"
    unfolding installed_def by (rule read_bytes_past)
  also have "\<dots> = payload"
    using read_bytes_copy[of payload "APP_BASE + sizeof_fw_header"] assms(2) bound by simp
  finally show p: "read_bytes (installed sz payload m) (APP_BASE + sizeof_fw_header) (unat sz) = payload" .
  from assms(1) show "image_valid (installed sz payload m)"
    by (simp add: image_valid_def h p size_ok_def)
qed

lemma uart_update_cases [case_names bad_cmd stalled sized]:
  obtains
    (bad_cmd) rest where "length rest < length (rx s)"
      "uart_update b s = Return () (s\<lparr>rx := rest, tx := tx s @ said b [''OK'', ''ERR: CMD'']\<rparr>)"
  | (stalled) "uart_update b s = Halt Stalled (s\<lparr>rx := [], tx := tx s @ said b [''OK'']\<rparr>)"
  | (sized) pre t rest where "rx s = ''SEND '' @ pre @ t # rest" "terminator t"
      "list_all (\<lambda>c. \<not> terminator c) pre"
proof -
  define s1 where "s1 = uart_puts (''OK'' @ eol b) s"
  have s1: "s1 = s\<lparr>tx := tx s @ said b [''OK'']\<rparr>"
    by (simp add: s1_def uart_puts_eq said_def del: wire.simps)
  from await_command_cases[of s1 "''SEND ''" b]
  consider (ok) rest0 where "rx s1 = ''SEND '' @ rest0"
      "await_command b ''SEND '' s1 = Return True (s1\<lparr>rx := rest0\<rparr>)"
    | (bad) rest where "length rest < length (rx s1)"
      "await_command b ''SEND '' s1 =
         Return False (s1\<lparr>rx := rest, tx := tx s1 @ wire (''ERR: CMD'' @ eol b)\<rparr>)"
    | (stall) "await_command b ''SEND '' s1 = Halt Stalled (s1\<lparr>rx := []\<rparr>)"
    by blast
  then show ?thesis
  proof cases
    case bad
    have "uart_update b s = Return () (s1\<lparr>rx := rest, tx := tx s1 @ wire (''ERR: CMD'' @ eol b)\<rparr>)"
      by (simp only: uart_update_def Let_def s1_def[symmetric] bad(2) result.case bool.case)
    with bad(1) show ?thesis
      by (intro that(1)[of rest]) (simp_all add: s1 said_def del: wire.simps)
  next
    case stall
    have "uart_update b s = Halt Stalled (s1\<lparr>rx := []\<rparr>)"
      by (simp only: uart_update_def Let_def s1_def[symmetric] stall result.case)
    then show ?thesis
      by (intro that(2)) (simp add: s1)
  next
    case ok
    show ?thesis
    proof (cases "dropWhile (\<lambda>c. \<not> terminator c) rest0")
      case Nil
      from read_size_aux[of "s1\<lparr>rx := rest0\<rparr>" rest0 0]
      have "read_size 0 (s1\<lparr>rx := rest0\<rparr>) = Halt Stalled (s1\<lparr>rx := []\<rparr>)"
        unfolding Nil by simp
      then have "uart_update b s = Halt Stalled (s1\<lparr>rx := []\<rparr>)"
        by (simp only: uart_update_def Let_def s1_def[symmetric] ok(2) result.case bool.case)
      then show ?thesis
        by (intro that(2)) (simp add: s1)
    next
      case (Cons t rest)
      let ?pre = "takeWhile (\<lambda>c. \<not> terminator c) rest0"
      have "rest0 = ?pre @ t # rest"
        using takeWhile_dropWhile_id[of "\<lambda>c. \<not> terminator c" rest0] Cons by simp
      moreover have "terminator t"
        using hd_dropWhile[of "\<lambda>c. \<not> terminator c" rest0] Cons by simp
      moreover have "list_all (\<lambda>c. \<not> terminator c) ?pre"
        by (auto simp: list_all_iff dest: set_takeWhileD)
      ultimately show ?thesis
        using ok(1) by (intro that(3)[of ?pre t rest]) (simp_all add: s1)
    qed
  qed
qed

lemma store_events_no_write: "PlatformWrite a n \<notin> set (store_events d k)"
  by (auto simp: store_events_def)

text \<open>The sessions of T1 and T3 run to the end, whatever the build.\<close>

lemma declared_size_4: "declared_size ''4'' = 4"
  by (simp add: declared_size_def decimal_def is_digit_def digit_value_def)

lemma size_ok_4: "size_ok 4"
  by (simp add: size_ok_def APP_MAX_SIZE_def sizeof_fw_header_def)

lemma t1_run:
  "uart_update b t1_session =
     Halt (if direct_boot b then Jumped else Rebooted)
       \<lparr>mem = installed 4 [0xDE, 0xAD, 0xBE, 0xEF] (\<lambda>_. 0xFF), rx = [],
        tx = said b ([''OK'', ''ERASING...'', ''READY'', ''CRC?'', ''OK'', ''REBOOT''] @
               (if direct_boot b then [''Jumping to application...'', ''APP_HANDOFF''] else [])),
        trace = session_events b 4\<rparr>"
  using uart_update_line[of t1_session "''4''" LF "[CHR 0xDE, CHR 0xAD, CHR 0xBE, CHR 0xEF]" b]
  by (simp add: t1_session_def terminator_def declared_size_4 size_ok_4 Let_def)

lemma t3_run:
  "uart_update b t3_session =
     Halt (if direct_boot b then Jumped else Rebooted)
       \<lparr>mem = installed 4 [0xDE, 0xAD, 0xBE, 0xEE] (\<lambda>_. 0xFF), rx = [],
        tx = said b ([''OK'', ''ERASING...'', ''READY'', ''CRC?'', ''OK'', ''REBOOT''] @
               (if direct_boot b then [''Jumping to application...'', ''APP_HANDOFF''] else [])),
        trace = session_events b 4\<rparr>"
  using uart_update_line[of t3_session "''4''" LF "[CHR 0xDE, CHR 0xAD, CHR 0xBE, CHR 0xEE]" b]
  by (simp add: t3_session_def terminator_def declared_size_4 size_ok_4 Let_def)

lemma session_events_4:
  "session_events b 4 =
     [PlatformErase 0x80010000 458752,
      DirectStore 0x80010010, DirectStore 0x80010011, DirectStore 0x80010012, DirectStore 0x80010013,
      CrcCall 0x80010010 4, PlatformWrite 0x80010000 16,
      if direct_boot b then AppEntry else PlatformReset]"
proof -
  have "[0..<4] = [0, 1, 2, 3 :: nat]" by code_simp
  then show ?thesis
    by (simp add: session_events_def store_events_def APP_BASE_def APP_MAX_SIZE_def
          sizeof_fw_header_def)
qed

text \<open>
  C4. When the size line declares 0 or more than the partition holds behind the header,
  the session prints \<open>ERR: SIZE\<close> and returns: memory is as it was and no erase has
  been called.
\<close>

theorem bad_size_aborts_before_erase:
  assumes "rx s = ''SEND '' @ pre @ t # rest" "terminator t"
    "list_all (\<lambda>c. \<not> terminator c) pre"
    "declared_size pre = 0 \<or> declared_size pre > APP_MAX_SIZE - sizeof_fw_header"
  shows "uart_update b s = Return () (s\<lparr>rx := rest, tx := tx s @ said b [''OK'', ''ERR: SIZE'']\<rparr>)
    \<and> mem (state_of (uart_update b s)) = mem s
    \<and> erase_calls (trace (state_of (uart_update b s))) = erase_calls (trace s)"
proof -
  from assms(4) have "\<not> size_ok (declared_size pre)"
    by (simp add: size_ok_iff)
  with uart_update_line[OF assms(1-3), of b] show ?thesis
    by (simp add: Let_def)
qed

theorem bad_size_aborts_before_erase_witness:
  "uart_update Main_c \<lparr>mem = (\<lambda>_. 0), rx = ''SEND 458737'' @ [LF] @ ''x'', tx = [], trace = []\<rparr> =
     Return () \<lparr>mem = (\<lambda>_. 0), rx = ''x'',
                tx = ''OK'' @ [CR, LF, CR] @ ''ERR: SIZE'' @ [CR, LF, CR], trace = []\<rparr>
   \<and> erase_calls (trace (state_of (uart_update Main_c
         \<lparr>mem = (\<lambda>_. 0), rx = ''SEND 458737'' @ [LF] @ ''x'', tx = [], trace = []\<rparr>))) = 0"
  using bad_size_aborts_before_erase
    [of "\<lparr>mem = (\<lambda>_. 0), rx = ''SEND 458737'' @ [LF] @ ''x'', tx = [], trace = []\<rparr>"
        "''458737''" LF "''x''" Main_c]
  by (simp add: terminator_def declared_size_def decimal_def is_digit_def digit_value_def
        APP_MAX_SIZE_def sizeof_fw_header_def said_def erase_calls_def)

text \<open>
  C2. When a session writes the header, that write is its last storage write: before
  it come the erase of the partition and the stores of all \<open>size\<close> payload bytes (and
  the CRC over them), after it only the reset or the handoff. \<open>size\<close> is the size the
  header holds.
\<close>

theorem header_write_is_last:
  assumes "trace (state_of (uart_update b s)) = trace s @ evs" "PlatformWrite a n \<in> set evs"
  shows "size_ok (hdr_size (header_at (mem (state_of (uart_update b s))) APP_BASE)) \<and>
    evs =
      PlatformErase APP_BASE (unat APP_MAX_SIZE) #
      store_events (APP_BASE + sizeof_fw_header)
        (unat (hdr_size (header_at (mem (state_of (uart_update b s))) APP_BASE))) @
      [CrcCall (APP_BASE + sizeof_fw_header)
         (unat (hdr_size (header_at (mem (state_of (uart_update b s))) APP_BASE))),
       PlatformWrite APP_BASE 16,
       if direct_boot b then AppEntry else PlatformReset]"
proof (cases rule: uart_update_cases[of s b])
  case (bad_cmd rest)
  with assms show ?thesis by simp
next
  case stalled
  with assms show ?thesis by simp
next
  case (sized pre t rest)
  note line = uart_update_line[OF sized, of b]
  define sz where "sz = declared_size pre"
  consider (bad) "\<not> size_ok sz" | (starved) "size_ok sz" "\<not> unat sz \<le> length rest"
    | (complete) "size_ok sz" "unat sz \<le> length rest"
    by blast
  then show ?thesis
  proof cases
    case bad
    with line have "trace (state_of (uart_update b s)) = trace s"
      by (simp add: sz_def)
    with assms show ?thesis by simp
  next
    case starved
    with line have "trace (state_of (uart_update b s)) =
        trace s @ PlatformErase APP_BASE (unat APP_MAX_SIZE) #
          store_events (APP_BASE + sizeof_fw_header) (length rest)"
      by (simp add: sz_def)
    with assms(1) have "evs = PlatformErase APP_BASE (unat APP_MAX_SIZE) #
          store_events (APP_BASE + sizeof_fw_header) (length rest)"
      by simp
    with assms(2) show ?thesis by (simp add: store_events_no_write)
  next
    case complete
    with line have st: "state_of (uart_update b s) =
        s\<lparr>mem := installed sz (map of_char (take (unat sz) rest)) (mem s),
          rx := drop (unat sz) rest,
          tx := tx s @ said b ([''OK'', ''ERASING...'', ''READY'', ''CRC?'', ''OK'', ''REBOOT''] @
                  (if direct_boot b then [''Jumping to application...'', ''APP_HANDOFF''] else [])),
          trace := trace s @ session_events b sz\<rparr>"
      by (simp add: sz_def Let_def)
    have "hdr_size (header_at (mem (state_of (uart_update b s))) APP_BASE) = sz"
      using complete by (simp add: st installed_valid(2))
    moreover have "evs = session_events b sz"
      using assms(1) by (simp add: st)
    ultimately show ?thesis
      using complete(1) by (simp add: session_events_def)
  qed
qed


text \<open>The session of scenario T1: erase, four stores, CRC, header, reset.\<close>

theorem header_write_is_last_witness:
  "trace (state_of (uart_update Main_c t1_session)) =
     [PlatformErase 0x80010000 458752,
      DirectStore 0x80010010, DirectStore 0x80010011, DirectStore 0x80010012, DirectStore 0x80010013,
      CrcCall 0x80010010 4, PlatformWrite 0x80010000 16, PlatformReset]
   \<and> hdr_size (header_at (mem (state_of (uart_update Main_c t1_session))) APP_BASE) = 4"
proof -
  have tr: "trace (state_of (uart_update Main_c t1_session)) = trace t1_session @ session_events Main_c 4"
    unfolding t1_run by (simp add: t1_session_def)
  have w: "PlatformWrite 0x80010000 16 \<in> set (session_events Main_c 4)"
    by (simp add: session_events_4)
  have sz: "hdr_size (header_at (mem (state_of (uart_update Main_c t1_session))) APP_BASE) = 4"
    by (simp add: t1_run installed_valid(2) size_ok_4)
  from header_write_is_last[OF tr w] tr sz show ?thesis
    by (simp add: session_events_4 t1_session_def)
qed


text \<open>
  C6. A session that does not stall and does not return has written the header, and
  the region it leaves is a valid image: \<open>validate_app\<close> returns 0 on it.
\<close>

theorem committed_image_validates:
  assumes "uart_update b s = Halt e s'" "e \<noteq> Stalled"
  shows "fst (validate_app b' s') = 0 \<and> image_valid (mem s')"
proof (cases rule: uart_update_cases[of s b])
  case (bad_cmd rest)
  with assms show ?thesis by simp
next
  case stalled
  with assms show ?thesis by simp
next
  case (sized pre t rest)
  note line = uart_update_line[OF sized, of b]
  define sz where "sz = declared_size pre"
  show ?thesis
  proof (cases "size_ok sz \<and> unat sz \<le> length rest")
    case False
    with line assms show ?thesis by (auto simp: sz_def Let_def split: if_splits)
  next
    case True
    with line assms have "mem s' = installed sz (map of_char (take (unat sz) rest)) (mem s)"
      by (auto simp: sz_def Let_def)
    with True show ?thesis by (simp add: installed_valid(1) validate_app_ok_iff)
  qed
qed

text \<open>The session of scenario T1 is such a session.\<close>

theorem committed_image_validates_witness:
  "uart_update Main_c t1_session =
     Halt Rebooted
       \<lparr>mem = installed 4 [0xDE, 0xAD, 0xBE, 0xEF] (\<lambda>_. 0xFF), rx = [],
        tx = said Main_c [''OK'', ''ERASING...'', ''READY'', ''CRC?'', ''OK'', ''REBOOT''],
        trace = session_events Main_c 4\<rparr>
   \<and> fst (validate_app Main_c
         \<lparr>mem = installed 4 [0xDE, 0xAD, 0xBE, 0xEF] (\<lambda>_. 0xFF), rx = [],
          tx = said Main_c [''OK'', ''ERASING...'', ''READY'', ''CRC?'', ''OK'', ''REBOOT''],
          trace = session_events Main_c 4\<rparr>) = 0
   \<and> image_valid (installed 4 [0xDE, 0xAD, 0xBE, 0xEF] (\<lambda>_. 0xFF))"
proof -
  have run: "uart_update Main_c t1_session =
     Halt Rebooted
       \<lparr>mem = installed 4 [0xDE, 0xAD, 0xBE, 0xEF] (\<lambda>_. 0xFF), rx = [],
        tx = said Main_c [''OK'', ''ERASING...'', ''READY'', ''CRC?'', ''OK'', ''REBOOT''],
        trace = session_events Main_c 4\<rparr>"
    using t1_run[of Main_c] by simp
  from committed_image_validates[OF run, of Main_c] run show ?thesis by simp
qed

section \<open>What a session says\<close>

lemma uart_update_says:
  "\<exists>ls\<in>set (transcripts b). tx (state_of (uart_update b s)) = tx s @ said b ls"
proof (cases rule: uart_update_cases[of s b])
  case (bad_cmd rest)
  then show ?thesis by (simp add: transcripts_def)
next
  case stalled
  then show ?thesis by (simp add: transcripts_def)
next
  case (sized pre t rest)
  note line = uart_update_line[OF sized, of b]
  show ?thesis
    unfolding line by (simp add: transcripts_def complete_lines_def Let_def)
qed

lemma uart_update_payload:
  assumes "rx s = ''SEND '' @ pre @ t # payload @ rest" "terminator t"
    "list_all (\<lambda>c. \<not> terminator c) pre"
    "size_ok (declared_size pre)" "length payload = unat (declared_size pre)"
  shows "uart_update b s =
     Halt (if direct_boot b then Jumped else Rebooted)
       (s\<lparr>mem := installed (declared_size pre) (map of_char payload) (mem s),
           rx := rest,
           tx := tx s @ said b (complete_lines b),
           trace := trace s @ session_events b (declared_size pre)\<rparr>)"
  using uart_update_line[OF assms(1-3), of b] assms(4,5)
  by (simp add: Let_def complete_lines_def)

text \<open>
  C8 (as amended). No host input makes the update session report a checksum failure.
  What a session sends is one of five sequences of lines, in which \<open>CRC?\<close> is always
  followed by \<open>OK\<close>: the checksum in the header is the one the loader computes over
  the bytes it has received, and the host sends none to compare it with. So whenever all
  \<open>size\<close> payload bytes arrive, whatever they are, the session commits them, reports
  \<open>CRC?\<close>, \<open>OK\<close>, \<open>REBOOT\<close> and ends in the reset or, with the direct boot, in the
  handoff; the image it leaves is valid.
\<close>

theorem update_reports_checksum_ok_only:
  "(\<exists>ls\<in>set (transcripts b). tx (state_of (uart_update b s)) = tx s @ said b ls) \<and>
   (rx s = ''SEND '' @ pre @ t # payload @ rest \<and> terminator t \<and>
    list_all (\<lambda>c. \<not> terminator c) pre \<and>
    size_ok (declared_size pre) \<and> length payload = unat (declared_size pre) \<longrightarrow>
    uart_update b s =
      Halt (if direct_boot b then Jumped else Rebooted)
        (s\<lparr>mem := installed (declared_size pre) (map of_char payload) (mem s),
            rx := rest,
            tx := tx s @ said b (complete_lines b),
            trace := trace s @ session_events b (declared_size pre)\<rparr>) \<and>
    image_valid (installed (declared_size pre) (map of_char payload) (mem s)))"
  using uart_update_says[of b s] uart_update_payload[of s pre t payload rest b]
    installed_valid(1)[of "declared_size pre" "map of_char payload" "mem s"]
  by simp

text \<open>The session of T3, with its changed payload byte, in the build that resets.\<close>

theorem update_reports_checksum_ok_only_witness:
  "uart_update Main_c t3_session =
     Halt Rebooted
       \<lparr>mem = installed 4 [0xDE, 0xAD, 0xBE, 0xEE] (\<lambda>_. 0xFF), rx = [],
        tx = said Main_c [''OK'', ''ERASING...'', ''READY'', ''CRC?'', ''OK'', ''REBOOT''],
        trace = session_events Main_c 4\<rparr>
   \<and> image_valid (installed 4 [0xDE, 0xAD, 0xBE, 0xEE] (\<lambda>_. 0xFF))"
  using update_reports_checksum_ok_only
    [of Main_c t3_session "''4''" LF "[CHR 0xDE, CHR 0xAD, CHR 0xBE, CHR 0xEE]" "[]"]
  by (simp add: terminator_def declared_size_4 size_ok_4 complete_lines_def)
     (simp add: t3_session_def)

text \<open>
  C8 as stated fails on scenario T3: with the last payload byte changed from \<open>EF\<close> to
  \<open>EE\<close>, the session reports \<open>CRC?\<close>, \<open>OK\<close>, and the build with the direct boot
  hands off to the changed payload.
\<close>

theorem t3_reports_ok_and_hands_off:
  "uart_update (Part_005 True) t3_session =
     Halt Jumped
       \<lparr>mem = installed 4 [0xDE, 0xAD, 0xBE, 0xEE] (\<lambda>_. 0xFF), rx = [],
        tx = said (Part_005 True)
               [''OK'', ''ERASING...'', ''READY'', ''CRC?'', ''OK'', ''REBOOT'',
                ''Jumping to application...'', ''APP_HANDOFF''],
        trace =
          [PlatformErase 0x80010000 458752,
           DirectStore 0x80010010, DirectStore 0x80010011, DirectStore 0x80010012,
           DirectStore 0x80010013,
           CrcCall 0x80010010 4, PlatformWrite 0x80010000 16, AppEntry]\<rparr>
   \<and> image_valid (installed 4 [0xDE, 0xAD, 0xBE, 0xEE] (\<lambda>_. 0xFF))"
  by (simp add: t3_run session_events_4 installed_valid(1) size_ok_4)

section \<open>The boot decision\<close>

lemma store_events_no_entry: "AppEntry \<notin> set (store_events d k)"
  by (auto simp: store_events_def)

lemma uart_update_handoff:
  "\<exists>evs. trace (state_of (uart_update b s)) = trace s @ evs \<and>
         handoff_rule b (mem s) (uart_update b s) evs"
proof (cases rule: uart_update_cases[of s b])
  case (bad_cmd rest)
  then show ?thesis by (simp add: handoff_rule_def)
next
  case stalled
  then show ?thesis by (simp add: handoff_rule_def)
next
  case (sized pre t rest)
  note line = uart_update_line[OF sized, of b]
  define sz where "sz = declared_size pre"
  consider (bad) "\<not> size_ok sz" | (starved) "size_ok sz" "\<not> unat sz \<le> length rest"
    | (complete) "size_ok sz" "unat sz \<le> length rest"
    by blast
  then show ?thesis
  proof cases
    case bad
    with line show ?thesis by (simp add: sz_def handoff_rule_def)
  next
    case starved
    with line show ?thesis
      by (simp add: sz_def handoff_rule_def store_events_no_entry)
  next
    case complete
    let ?pre = "PlatformErase APP_BASE (unat APP_MAX_SIZE) #
      store_events (APP_BASE + sizeof_fw_header) (unat sz) @
      [CrcCall (APP_BASE + sizeof_fw_header) (unat sz)]"
    have pre: "AppEntry \<notin> set ?pre" by (simp add: store_events_no_entry)
    have valid: "image_valid (installed sz (map of_char (take (unat sz) rest)) (mem s))"
      using complete by (simp add: installed_valid(1))
    show ?thesis
    proof (cases "direct_boot b")
      case True
      with line complete valid pre show ?thesis
        apply (simp add: sz_def[symmetric] Let_def handoff_rule_def)
        apply (rule exI[of _ ?pre])
        apply (simp add: session_events_def store_events_no_entry)
        done
    next
      case False
      with line complete pre show ?thesis
        by (simp add: sz_def[symmetric] Let_def handoff_rule_def session_events_def
              store_events_no_entry)
    qed
  qed
qed

lemma offer_update_Nil: "rx s = [] \<Longrightarrow> offer_update b s = Halt Stalled s"
  by (subst offer_update.simps) (simp add: uart_getc_Nil)

lemma offer_update_Cons:
  "rx s = c # cs \<Longrightarrow>
   offer_update b s =
     (if c = CHR ''u'' \<or> c = CHR ''U'' then
        (case uart_update b (s\<lparr>rx := cs, tx := tx s @ echo b c\<rparr>) of
           Halt e s' \<Rightarrow> Halt e s'
         | Return _ s4 \<Rightarrow> offer_update b s4)
      else Return () (s\<lparr>rx := cs, tx := tx s @ echo b c\<rparr>))"
  by (subst offer_update.simps)
     (simp add: uart_getc_Cons uart_putc_eq uart_puts_eq echo_def Let_def split: build.split)

lemma recovery_loop_Nil: "rx s = [] \<Longrightarrow> recovery_loop b s = Halt Stalled s"
  by (subst recovery_loop.simps) (simp add: uart_getc_Nil)

lemma recovery_loop_Cons:
  "rx s = c # cs \<Longrightarrow>
   recovery_loop b s =
     (if c = CHR ''u'' then
        (case uart_update b (s\<lparr>rx := cs\<rparr>) of
           Halt e s' \<Rightarrow> Halt e s'
         | Return _ s2 \<Rightarrow> recovery_loop b s2)
      else recovery_loop b (s\<lparr>rx := cs\<rparr>))"
  by (subst recovery_loop.simps) (simp add: uart_getc_Cons)

lemma offer_update_handoff:
  "\<exists>evs. trace (state_of (offer_update b s)) = trace s @ evs \<and>
         handoff_rule b (mem s) (offer_update b s) evs"
proof (induction "length (rx s)" arbitrary: s rule: less_induct)
  case less
  show ?case
  proof (cases "rx s")
    case Nil
    then show ?thesis by (simp add: offer_update_Nil handoff_rule_def)
  next
    case (Cons c cs)
    let ?s3 = "s\<lparr>rx := cs, tx := tx s @ echo b c\<rparr>"
    show ?thesis
    proof (cases "c = CHR ''u'' \<or> c = CHR ''U''")
      case False
      with Cons show ?thesis by (simp add: offer_update_Cons handoff_rule_def)
    next
      case True
      from uart_update_handoff[of b ?s3] obtain evs where
        evs: "trace (state_of (uart_update b ?s3)) = trace s @ evs"
          "handoff_rule b (mem s) (uart_update b ?s3) evs"
        by auto
      show ?thesis
      proof (cases "uart_update b ?s3")
        case (Halt e s')
        with Cons True evs show ?thesis by (auto simp: offer_update_Cons)
      next
        case (Return u s4)
        with evs have s4: "trace s4 = trace s" "mem s4 = mem s"
          by (simp_all add: handoff_rule_def)
        from uart_update_rx[OF Return] Cons have "length (rx s4) < length (rx s)" by simp
        from less[OF this] s4 Return Cons True show ?thesis
          by (simp add: offer_update_Cons)
      qed
    qed
  qed
qed

lemma recovery_loop_handoff:
  "\<exists>evs. trace (state_of (recovery_loop b s)) = trace s @ evs \<and>
         handoff_rule b (mem s) (recovery_loop b s) evs"
proof (induction "length (rx s)" arbitrary: s rule: less_induct)
  case less
  show ?case
  proof (cases "rx s")
    case Nil
    then show ?thesis by (simp add: recovery_loop_Nil handoff_rule_def)
  next
    case (Cons c cs)
    let ?s1 = "s\<lparr>rx := cs\<rparr>"
    show ?thesis
    proof (cases "c = CHR ''u''")
      case False
      from Cons have "length (rx ?s1) < length (rx s)" by simp
      from less[OF this] False Cons show ?thesis
        by (simp add: recovery_loop_Cons)
    next
      case True
      from uart_update_handoff[of b ?s1] obtain evs where
        evs: "trace (state_of (uart_update b ?s1)) = trace s @ evs"
          "handoff_rule b (mem s) (uart_update b ?s1) evs"
        by auto
      show ?thesis
      proof (cases "uart_update b ?s1")
        case (Halt e s')
        with Cons True evs show ?thesis by (auto simp: recovery_loop_Cons)
      next
        case (Return u s2)
        with evs have s2: "trace s2 = trace s" "mem s2 = mem s"
          by (simp_all add: handoff_rule_def)
        from uart_update_rx[OF Return] Cons have "length (rx s2) < length (rx s)" by simp
        from less[OF this] s2 Return Cons True show ?thesis
          by (simp add: recovery_loop_Cons)
      qed
    qed
  qed
qed

lemma recovery_loop_halts: "\<exists>e s'. recovery_loop b s = Halt e s'"
proof (induction "length (rx s)" arbitrary: s rule: less_induct)
  case less
  show ?case
  proof (cases "rx s")
    case Nil
    then show ?thesis by (simp add: recovery_loop_Nil)
  next
    case (Cons c cs)
    let ?s1 = "s\<lparr>rx := cs\<rparr>"
    from Cons have l1: "length (rx ?s1) < length (rx s)" by simp
    show ?thesis
    proof (cases "uart_update b ?s1")
      case (Halt e s')
      with Cons less[OF l1] show ?thesis by (simp add: recovery_loop_Cons)
    next
      case (Return u s2)
      from uart_update_rx[OF Return] Cons have "length (rx s2) < length (rx s)" by simp
      from less[OF this] less[OF l1] Return Cons show ?thesis
        by (simp add: recovery_loop_Cons)
    qed
  qed
qed

lemma print_banner_eq: "print_banner b s = s\<lparr>tx := tx s @ banner_text b\<rparr>"
  by (simp add: print_banner_def banner_text_def uart_puts_eq Let_def del: wire.simps)

lemma jump_to_app_eq:
  "jump_to_app b s =
     Halt Jumped (s\<lparr>tx := tx s @ said b (''Jumping to application...'' #
                                (case b of Main_c \<Rightarrow> [] | Part_005 _ \<Rightarrow> [''APP_HANDOFF''])),
                    trace := trace s @ [AppEntry]\<rparr>)"
  by (cases b) (simp_all add: jump_to_app_def uart_puts_eq log_def said_def Let_def del: wire.simps)

lemma validate_app_state:
  "validate_app b s =
     (if image_valid (mem s) then 0 else - 1,
      s\<lparr>tx := tx s @ validate_text b (mem s), trace := trace s @ validate_events (mem s)\<rparr>)"
  by (auto simp: validate_app_eq validate_text_def validate_events_def image_valid_def Let_def
        said_def word_neq_0_conv not_less simp del: wire.simps)

lemma main_eq:
  "main b s =
     (case offer_update b (s\<lparr>tx := tx s @ banner_text b @ said b [''BOOT?'']\<rparr>) of
        Halt e s' \<Rightarrow> Halt e s'
      | Return _ s2 \<Rightarrow>
          if image_valid (mem s2) then
            jump_to_app b (s2\<lparr>tx := tx s2 @ validate_text b (mem s2),
                               trace := trace s2 @ validate_events (mem s2)\<rparr>)
          else
            recovery_loop b
              (s2\<lparr>trace := trace s2 @ validate_events (mem s2),
                   tx := tx s2 @ validate_text b (mem s2) @ said b [recovery_line]\<rparr>))"
  by (simp add: main_def uart_init_def print_banner_eq uart_puts_eq validate_app_state said_def
        recovery_line_def Let_def del: wire.simps split: result.split)

lemma validate_events_no_entry: "AppEntry \<notin> set (validate_events m)"
  by (simp add: validate_events_def Let_def)

lemma validate_events_valid:
  "image_valid m \<Longrightarrow> validate_events m =
     [CrcCall (APP_BASE + sizeof_fw_header) (unat (hdr_size (header_at m APP_BASE))), Validated 0]"
  by (auto simp: validate_events_def image_valid_def Let_def word_neq_0_conv not_less)

lemma main_halts: "\<exists>e s'. main b s = Halt e s'"
proof (cases "offer_update b (s\<lparr>tx := tx s @ banner_text b @ said b [''BOOT?'']\<rparr>)")
  case (Halt e s')
  then show ?thesis by (simp add: main_eq)
next
  case (Return u s2)
  with recovery_loop_halts show ?thesis
    by (simp add: main_eq jump_to_app_eq)
qed

text \<open>
  C1 (as amended). In every run of \<open>main\<close> that hands off, the handoff is the last
  event and the only handoff, the region then holds a valid image, and the event before
  it is either the return of \<open>validate_app\<close> with 0 or, in a build with
  \<open>PLATFORM_DIRECT_BOOT_AFTER_UPDATE\<close> set, the header write of an update session,
  with no call of \<open>validate_app\<close> between them. A run that does not hand off has no
  handoff in its trace. So with the flag unset the only way to the handoff is through
  \<open>validate_app\<close>, and the recovery loop and the update session never reach it.
\<close>

theorem handoff_only_after_validation_or_commit:
  assumes "main b s = Halt e s'"
  shows "\<exists>evs. trace s' = trace s @ evs \<and>
     (if e = Jumped then
        image_valid (mem s') \<and>
        (\<exists>pre. AppEntry \<notin> set pre \<and>
           (evs = pre @ [Validated 0, AppEntry] \<or>
            direct_boot b \<and> evs = pre @ [PlatformWrite APP_BASE 16, AppEntry]))
      else AppEntry \<notin> set evs)"
proof -
  let ?s1 = "s\<lparr>tx := tx s @ banner_text b @ said b [''BOOT?'']\<rparr>"
  from offer_update_handoff[of b ?s1] obtain evs1 where
    evs1: "trace (state_of (offer_update b ?s1)) = trace s @ evs1"
      "handoff_rule b (mem s) (offer_update b ?s1) evs1"
    by auto
  show ?thesis
  proof (cases "offer_update b ?s1")
    case (Halt e1 s1')
    with assms have "e = e1" "s' = s1'" by (simp_all add: main_eq)
    with evs1 Halt show ?thesis
      by (auto simp: handoff_rule_def)
  next
    case (Return u s2)
    with evs1 have s2: "trace s2 = trace s" "mem s2 = mem s"
      by (simp_all add: handoff_rule_def)
    show ?thesis
    proof (cases "image_valid (mem s2)")
      case True
      let ?h = "hdr_size (header_at (mem s2) APP_BASE)"
      from True assms Return have
        "e = Jumped" "mem s' = mem s2"
        "trace s' = trace s @ [CrcCall (APP_BASE + sizeof_fw_header) (unat ?h)] @ [Validated 0, AppEntry]"
        by (auto simp: main_eq jump_to_app_eq validate_events_valid s2)
      with True show ?thesis
        by (intro exI[of _ "[CrcCall (APP_BASE + sizeof_fw_header) (unat ?h)] @ [Validated 0, AppEntry]"])
           (auto intro!: exI[of _ "[CrcCall (APP_BASE + sizeof_fw_header) (unat ?h)]"])
    next
      case False
      let ?s3 = "s2\<lparr>trace := trace s2 @ validate_events (mem s2),
                     tx := tx s2 @ validate_text b (mem s2) @ said b [recovery_line]\<rparr>"
      from False assms Return have rec: "recovery_loop b ?s3 = Halt e s'"
        by (simp add: main_eq)
      from recovery_loop_handoff[of b ?s3] rec obtain evs3 where
        evs3: "trace s' = trace s @ validate_events (mem s2) @ evs3"
          "handoff_rule b (mem s2) (Halt e s' :: unit result) evs3"
        by (auto simp: s2)
      show ?thesis
      proof (cases "e = Jumped")
        case nj: False
        with evs3 show ?thesis
          by (intro exI[of _ "validate_events (mem s2) @ evs3"])
             (simp add: handoff_rule_def validate_events_no_entry)
      next
        case j: True
        with evs3(2) obtain pre where pre: "direct_boot b" "image_valid (mem s')"
          "AppEntry \<notin> set pre" "evs3 = pre @ [PlatformWrite APP_BASE 16, AppEntry]"
          by (auto simp: handoff_rule_def)
        with evs3(1) j show ?thesis
          by (intro exI[of _ "validate_events (mem s2) @ evs3"])
             (auto intro!: exI[of _ "validate_events (mem s2) @ pre"] simp: validate_events_no_entry)
      qed
    qed
  qed
qed

text \<open>A boot with a valid image installed: CRC, validation, handoff.\<close>

lemma send4_run:
  assumes "rx s = ''SEND 4'' @ [LF, c0, c1, c2, c3] @ rest"
  shows "uart_update b s =
     Halt (if direct_boot b then Jumped else Rebooted)
       (s\<lparr>mem := installed 4 [of_char c0, of_char c1, of_char c2, of_char c3] (mem s),
           rx := rest,
           tx := tx s @ said b (complete_lines b),
           trace := trace s @ session_events b 4\<rparr>)"
  using uart_update_payload[of s "''4''" LF "[c0, c1, c2, c3]" rest b] assms
  by (simp add: terminator_def declared_size_4 size_ok_4)

lemma erased_not_valid: "\<not> image_valid (\<lambda>_. 0xFF)"
  by (simp add: image_valid_def header_at_def load32_def BOOT_MAGIC_def Let_def)

lemma erased_validate_events: "validate_events (\<lambda>_. 0xFF) = [Validated (- 1)]"
  by (simp add: validate_events_def header_at_def load32_def BOOT_MAGIC_def Let_def)

theorem handoff_only_after_validation_or_commit_witness:
  "ending_of (main Main_c boot_installed) = Some Jumped \<and>
   image_valid (mem (state_of (main Main_c boot_installed))) \<and>
   trace (state_of (main Main_c boot_installed)) = [CrcCall 0x80010010 4, Validated 0, AppEntry]"
proof -
  let ?s1 = "boot_installed\<lparr>tx := tx boot_installed @ banner_text Main_c @ said Main_c [''BOOT?'']\<rparr>"
  let ?s2 = "?s1\<lparr>rx := [], tx := tx ?s1 @ echo Main_c LF\<rparr>"
  have offer: "offer_update Main_c ?s1 = Return () ?s2"
    by (subst offer_update_Cons[of _ LF "[]"]) (simp_all add: boot_installed_def)
  have m2: "mem ?s2 = installed 4 [0xDE, 0xAD, 0xBE, 0xEF] (\<lambda>_. 0xFF)"
    by (simp add: boot_installed_def)
  have valid: "image_valid (installed 4 [0xDE, 0xAD, 0xBE, 0xEF] (\<lambda>_. 0xFF))"
    by (simp add: installed_valid(1) size_ok_4)
  have hsz: "hdr_size (header_at (installed 4 [0xDE, 0xAD, 0xBE, 0xEF] (\<lambda>_. 0xFF)) APP_BASE) = 4"
    by (simp add: installed_valid(2) size_ok_4)
  have run: "main Main_c boot_installed =
      Halt Jumped (?s2\<lparr>tx := tx ?s2 @ validate_text Main_c (mem ?s2) @
                          said Main_c [''Jumping to application...''],
                     trace := [CrcCall 0x80010010 4, Validated 0, AppEntry]\<rparr>)"
    apply (simp only: main_eq offer result.case m2 valid if_True jump_to_app_eq
        validate_events_valid[OF valid] hsz)
    apply (simp add: boot_installed_def APP_BASE_def sizeof_fw_header_def)
    done
  from handoff_only_after_validation_or_commit[OF run] run valid show ?thesis
    by (simp add: boot_installed_def)
qed

text \<open>
  C1 as stated fails in the build with the direct boot: from the recovery loop, after
  the only call of \<open>validate_app\<close> has failed, an update session hands off without a
  successful validation before it.
\<close>

theorem recovery_update_hands_off_unvalidated:
  "ending_of (main (Part_005 True) recovery_update) = Some Jumped \<and>
   trace (state_of (main (Part_005 True) recovery_update)) =
     [Validated (- 1),
      PlatformErase 0x80010000 458752,
      DirectStore 0x80010010, DirectStore 0x80010011, DirectStore 0x80010012,
      DirectStore 0x80010013,
      CrcCall 0x80010010 4, PlatformWrite 0x80010000 16, AppEntry]"
proof -
  let ?b = "Part_005 True"
  let ?s1 = "recovery_update\<lparr>tx := tx recovery_update @ banner_text ?b @ said ?b [''BOOT?'']\<rparr>"
  let ?s2 = "?s1\<lparr>rx := ''uSEND 4'' @ [LF, CHR 0xDE, CHR 0xAD, CHR 0xBE, CHR 0xEF],
                 tx := tx ?s1 @ echo ?b LF\<rparr>"
  let ?s3 = "?s2\<lparr>trace := trace ?s2 @ validate_events (mem ?s2),
                 tx := tx ?s2 @ validate_text ?b (mem ?s2) @ said ?b [recovery_line]\<rparr>"
  have offer: "offer_update ?b ?s1 = Return () ?s2"
    by (subst offer_update_Cons[of _ LF "''uSEND 4'' @ [LF, CHR 0xDE, CHR 0xAD, CHR 0xBE, CHR 0xEF]"])
       (simp_all add: recovery_update_def)
  have m2: "mem ?s2 = (\<lambda>_. 0xFF)" by (simp add: recovery_update_def)
  have main: "main ?b recovery_update = recovery_loop ?b ?s3"
    by (simp only: main_eq offer result.case m2 erased_not_valid if_False)
  have upd: "uart_update ?b (?s3\<lparr>rx := ''SEND 4'' @ [LF, CHR 0xDE, CHR 0xAD, CHR 0xBE, CHR 0xEF]\<rparr>) =
      Halt Jumped
        (?s3\<lparr>mem := installed 4 [0xDE, 0xAD, 0xBE, 0xEF] (\<lambda>_. 0xFF), rx := [],
             tx := tx ?s3 @ said ?b (complete_lines ?b),
             trace := [Validated (- 1)] @ session_events ?b 4\<rparr>)"
    by (subst send4_run[of _ "CHR 0xDE" "CHR 0xAD" "CHR 0xBE" "CHR 0xEF" "[]"])
       (simp_all add: recovery_update_def erased_validate_events)
  have "recovery_loop ?b ?s3 =
      Halt Jumped
        (?s3\<lparr>mem := installed 4 [0xDE, 0xAD, 0xBE, 0xEF] (\<lambda>_. 0xFF), rx := [],
             tx := tx ?s3 @ said ?b (complete_lines ?b),
             trace := [Validated (- 1)] @ session_events ?b 4\<rparr>)"
    by (subst recovery_loop_Cons[of _ "CHR ''u''" "''SEND 4'' @ [LF, CHR 0xDE, CHR 0xAD, CHR 0xBE, CHR 0xEF]"])
       (simp_all only: upd result.case, simp_all add: recovery_update_def)
  then show ?thesis
    unfolding main by (simp add: session_events_4)
qed

section \<open>The lines on the serial stream\<close>

lemma no_vt_Cons: "no_vt (a # cs) = ((cs = [] \<or> \<not> (a = CHR ''V'' \<and> hd cs = CHR ''T'')) \<and> no_vt cs)"
  by (cases cs) auto

lemma no_vt_append:
  "no_vt (xs @ ys) =
     (no_vt xs \<and> no_vt ys \<and> (xs = [] \<or> ys = [] \<or> \<not> (last xs = CHR ''V'' \<and> hd ys = CHR ''T'')))"
proof (induction xs)
  case Nil
  show ?case by simp
next
  case (Cons a xs)
  have "no_vt ((a # xs) @ ys) =
      ((xs @ ys = [] \<or> \<not> (a = CHR ''V'' \<and> hd (xs @ ys) = CHR ''T'')) \<and> no_vt (xs @ ys))"
    by (simp add: no_vt_Cons[of a "xs @ ys"] del: no_vt.simps)
  also have "\<dots> = (no_vt (a # xs) \<and> no_vt ys \<and>
      (a # xs = [] \<or> ys = [] \<or> \<not> (last (a # xs) = CHR ''V'' \<and> hd ys = CHR ''T'')))"
    unfolding Cons no_vt_Cons[of a xs]
    by (cases "xs = []") (auto simp: hd_append)
  finally show ?case .
qed

lemma calm_append: "calm xs \<Longrightarrow> calm ys \<Longrightarrow> calm (xs @ ys)"
  by (auto simp: calm_def no_vt_append)

lemma no_vt_sublist: "sublist p out \<Longrightarrow> no_vt out \<Longrightarrow> no_vt p"
  by (auto simp: sublist_def no_vt_append)

lemma no_vt_no_event:
  assumes "no_vt out"
  shows "\<not> sublist ''BL_EVT:'' out" "\<not> sublist ''APP_EVT:'' out"
proof -
  have "\<not> no_vt ''BL_EVT:''" "\<not> no_vt ''APP_EVT:''" by simp_all
  with assms show "\<not> sublist ''BL_EVT:'' out" "\<not> sublist ''APP_EVT:'' out"
    by (auto dest: no_vt_sublist)
qed

lemma calm_literal: "l \<in> set literals \<Longrightarrow> calm (wire (l @ eol b))"
  by (cases b) (auto simp: literals_def calm_def recovery_line_def)

lemma calm_said:
  "ls \<noteq> [] \<Longrightarrow> set ls \<subseteq> set literals \<Longrightarrow> calm (said b ls)"
proof (induction ls)
  case Nil
  then show ?case by simp
next
  case (Cons l ls)
  show ?case
  proof (cases "ls = []")
    case True
    with Cons.prems show ?thesis by (simp add: said_def calm_literal del: wire.simps)
  next
    case False
    with Cons show ?thesis
      by (simp add: said_Cons calm_append calm_literal del: wire.simps)
  qed
qed

lemma calm_banner: "calm (banner_text b)"
  by (cases b) (simp_all add: banner_text_def calm_def PLATFORM_NAME_def)

lemma no_vt_after_calm: "calm a \<Longrightarrow> no_vt l \<Longrightarrow> no_vt (a @ l)"
  by (auto simp: calm_def no_vt_append)

lemma no_vt_before_calm: "no_vt l \<Longrightarrow> calm c \<Longrightarrow> no_vt (l @ c)"
  by (auto simp: calm_def no_vt_append)

lemma no_vt_echo: "no_vt (echo b c)"
  by (cases b) (auto simp: echo_def)

lemma uart_update_calm:
  "\<exists>out. tx (state_of (uart_update b s)) = tx s @ out \<and> calm out"
proof -
  from uart_update_says[of b s] obtain ls where
    ls: "ls \<in> set (transcripts b)" "tx (state_of (uart_update b s)) = tx s @ said b ls"
    by auto
  from ls(1) have "ls \<noteq> []" "set ls \<subseteq> set literals"
    by (auto simp: transcripts_def complete_lines_def literals_def)
  then have "calm (said b ls)" by (rule calm_said)
  with ls(2) show ?thesis by auto
qed

lemma offer_update_says:
  "\<exists>out. tx (state_of (offer_update b s)) = tx s @ out \<and> no_vt out"
proof (induction "length (rx s)" arbitrary: s rule: less_induct)
  case less
  show ?case
  proof (cases "rx s")
    case Nil
    then show ?thesis by (simp add: offer_update_Nil)
  next
    case (Cons c cs)
    let ?s3 = "s\<lparr>rx := cs, tx := tx s @ echo b c\<rparr>"
    show ?thesis
    proof (cases "c = CHR ''u'' \<or> c = CHR ''U''")
      case False
      with Cons show ?thesis by (simp add: offer_update_Cons no_vt_echo)
    next
      case True
      from uart_update_calm[of b ?s3] obtain u where
        u: "tx (state_of (uart_update b ?s3)) = tx s @ echo b c @ u" "calm u"
        by auto
      show ?thesis
      proof (cases "uart_update b ?s3")
        case (Halt e s')
        with Cons True u have "tx (state_of (offer_update b s)) = tx s @ echo b c @ u"
          by (simp add: offer_update_Cons)
        moreover have "no_vt (echo b c @ u)"
          using u(2) by (rule no_vt_before_calm[OF no_vt_echo])
        ultimately show ?thesis by blast
      next
        case (Return r s4)
        with u have s4: "tx s4 = tx s @ echo b c @ u" by simp
        from uart_update_rx[OF Return] Cons have "length (rx s4) < length (rx s)" by simp
        from less[OF this] obtain l where
          l: "tx (state_of (offer_update b s4)) = tx s4 @ l" "no_vt l"
          by auto
        from Return Cons True l(1) s4
        have "tx (state_of (offer_update b s)) = tx s @ echo b c @ u @ l"
          by (simp add: offer_update_Cons)
        moreover have "no_vt (echo b c @ u @ l)"
          using no_vt_echo[of b c] u(2) l(2) by (auto simp: calm_def no_vt_append)
        ultimately show ?thesis by blast
      qed
    qed
  qed
qed

lemma recovery_loop_says:
  "\<exists>out. tx (state_of (recovery_loop b s)) = tx s @ out \<and> (out = [] \<or> calm out)"
proof (induction "length (rx s)" arbitrary: s rule: less_induct)
  case less
  show ?case
  proof (cases "rx s")
    case Nil
    then show ?thesis by (simp add: recovery_loop_Nil)
  next
    case (Cons c cs)
    let ?s1 = "s\<lparr>rx := cs\<rparr>"
    show ?thesis
    proof (cases "c = CHR ''u''")
      case False
      from Cons have "length (rx ?s1) < length (rx s)" by simp
      from less[OF this] False Cons show ?thesis
        by (simp add: recovery_loop_Cons)
    next
      case True
      from uart_update_calm[of b ?s1] obtain u where
        u: "tx (state_of (uart_update b ?s1)) = tx s @ u" "calm u"
        by auto
      show ?thesis
      proof (cases "uart_update b ?s1")
        case (Halt e s')
        with Cons True u show ?thesis by (auto simp: recovery_loop_Cons)
      next
        case (Return r s2)
        with u have s2: "tx s2 = tx s @ u" by simp
        from uart_update_rx[OF Return] Cons have "length (rx s2) < length (rx s)" by simp
        from less[OF this] obtain l where
          l: "tx (state_of (recovery_loop b s2)) = tx s2 @ l" "l = [] \<or> calm l"
          by auto
        from Return Cons True l(1) s2
        have "tx (state_of (recovery_loop b s)) = tx s @ u @ l"
          by (simp add: recovery_loop_Cons)
        moreover have "calm (u @ l)"
          using u(2) l(2) by (auto simp: calm_append)
        ultimately show ?thesis by blast
      qed
    qed
  qed
qed

lemma validate_text_calm: "validate_text b m = [] \<or> calm (validate_text b m)"
  by (auto simp: validate_text_def Let_def literals_def intro!: calm_said)

lemma validate_text_valid: "image_valid m \<Longrightarrow> validate_text b m = []"
  by (auto simp: validate_text_def image_valid_def Let_def word_neq_0_conv not_less)

lemma main_says:
  "\<exists>out. tx (state_of (main b s)) = tx s @ out \<and> no_vt out"
proof -
  let ?a = "banner_text b @ said b [''BOOT?'']"
  let ?s1 = "s\<lparr>tx := tx s @ ?a\<rparr>"
  have a: "calm ?a"
    by (intro calm_append calm_banner calm_said) (simp_all add: literals_def)
  from offer_update_says[of b ?s1] obtain l where
    l: "tx (state_of (offer_update b ?s1)) = tx s @ ?a @ l" "no_vt l"
    by auto
  have al: "no_vt (?a @ l)"
    using a l(2) by (rule no_vt_after_calm)
  show ?thesis
  proof (cases "offer_update b ?s1")
    case (Halt e s')
    with l(1) have "tx (state_of (main b s)) = tx s @ (?a @ l)"
      by (simp add: main_eq)
    with al show ?thesis by blast
  next
    case (Return u s2)
    with l(1) have s2: "tx s2 = tx s @ ?a @ l" by simp
    show ?thesis
    proof (cases "image_valid (mem s2)")
      case True
      let ?j = "said b (''Jumping to application...'' #
                  (case b of Main_c \<Rightarrow> [] | Part_005 _ \<Rightarrow> [''APP_HANDOFF'']))"
      have j: "calm ?j"
        by (rule calm_said) (auto simp: literals_def split: build.split)
      from True Return s2 have "tx (state_of (main b s)) = tx s @ ((?a @ l) @ ?j)"
        by (simp add: main_eq jump_to_app_eq validate_text_valid)
      moreover have "no_vt ((?a @ l) @ ?j)"
        using al j by (rule no_vt_before_calm)
      ultimately show ?thesis by blast
    next
      case False
      let ?v = "validate_text b (mem s2)"
      let ?r = "said b [recovery_line]"
      let ?s3 = "s2\<lparr>trace := trace s2 @ validate_events (mem s2), tx := tx s2 @ ?v @ ?r\<rparr>"
      have r: "calm ?r" by (rule calm_said) (simp_all add: literals_def)
      have vr: "calm (?v @ ?r)"
        using validate_text_calm[of b "mem s2"] r by (auto simp: calm_append)
      from recovery_loop_says[of b ?s3] obtain k where
        k: "tx (state_of (recovery_loop b ?s3)) = tx s2 @ ?v @ ?r @ k" "k = [] \<or> calm k"
        by auto
      have vrk: "calm (?v @ ?r @ k)"
      proof (cases "k = []")
        case True
        with vr show ?thesis by simp
      next
        case False
        with k(2) have "calm k" by simp
        from calm_append[OF vr this] show ?thesis by simp
      qed
      from False Return k(1) s2 have "tx (state_of (main b s)) = tx s @ ((?a @ l) @ (?v @ ?r @ k))"
        by (simp add: main_eq)
      moreover have "no_vt ((?a @ l) @ (?v @ ?r @ k))"
        using al vrk by (rule no_vt_before_calm)
      ultimately show ?thesis by blast
    qed
  qed
qed

text \<open>
  C9 (as amended). The loader's status lines are the legacy literals alone: in no run
  does what \<open>main\<close> sends hold a \<open>BL_EVT:\<close> or an \<open>APP_EVT:\<close> line.
\<close>

theorem no_event_lines:
  "\<exists>out. tx (state_of (main b s)) = tx s @ out \<and>
         \<not> sublist ''BL_EVT:'' out \<and> \<not> sublist ''APP_EVT:'' out"
  using main_says[of b s] by (auto dest: no_vt_no_event)

lemma erased_validate_text: "validate_text b (\<lambda>_. 0xFF) = said b [''Error: Invalid magic number'']"
  by (simp add: validate_text_def header_at_def load32_def BOOT_MAGIC_def Let_def)

lemma t2_boot_run:
  "main b t2_boot =
     Halt Stalled
       \<lparr>mem = (\<lambda>_. 0xFF), rx = [],
        tx = banner_text b @ said b [''BOOT?''] @ echo b LF @
             said b [''Error: Invalid magic number''] @ said b [recovery_line],
        trace = [Validated (- 1)]\<rparr>"
proof -
  let ?s1 = "t2_boot\<lparr>tx := tx t2_boot @ banner_text b @ said b [''BOOT?'']\<rparr>"
  let ?s2 = "?s1\<lparr>rx := [], tx := tx ?s1 @ echo b LF\<rparr>"
  have offer: "offer_update b ?s1 = Return () ?s2"
    by (subst offer_update_Cons[of _ LF "[]"]) (simp_all add: t2_boot_def)
  have m2: "mem ?s2 = (\<lambda>_. 0xFF)" by (simp add: t2_boot_def)
  show ?thesis
    apply (simp only: main_eq offer result.case m2 erased_not_valid if_False
        erased_validate_events erased_validate_text)
    apply (subst recovery_loop_Nil)
     apply (simp_all add: t2_boot_def)
    done
qed

text \<open>
  C9 as stated fails at the first status line: in scenario T2 the loader sends the
  banner, \<open>BOOT?\<close>, the echo, and the two lines of the failed validation, and no
  \<open>BL_EVT:\<close> line with any of them.
\<close>

theorem boot_prompt_without_event_line:
  "tx (state_of (main Main_c t2_boot)) =
     banner_text Main_c @
     ''BOOT?'' @ [CR, LF, CR] @
     [CR, LF] @
     ''Error: Invalid magic number'' @ [CR, LF, CR] @
     ''Recovery Loop: No valid app found. Press 'u' to update.'' @ [CR, LF, CR]
   \<and> \<not> sublist ''BL_EVT:'' (tx (state_of (main Main_c t2_boot)))"
proof -
  from main_says[of Main_c t2_boot] have "no_vt (tx (state_of (main Main_c t2_boot)))"
    by (simp add: t2_boot_def)
  then have "\<not> sublist ''BL_EVT:'' (tx (state_of (main Main_c t2_boot)))"
    by (rule no_vt_no_event)
  then show ?thesis
    by (simp add: t2_boot_run said_def echo_def recovery_line_def)
qed

end
